theory Spec2Isabelle
  imports Main
begin

section \<open>Edge API data downloader (Edge\_API.py)\<close>

text \<open>
  The script is a Streamlit page: every user action re-executes it from the top with the
  session state kept. The model follows the script block by block. Widgets are inputs of
  the functions, \<open>st.session_state\<close> is a record that is passed in and returned, and the
  messages shown with \<open>st.error\<close>, \<open>st.info\<close> and \<open>st.success\<close> are returned as a list.
\<close>

subsection \<open>Messages, secrets and session state\<close>

datatype message = Error string | Info string | Success string

text \<open>
  \<open>st.secrets\<close>: a section or a key may be absent. The two credential entries are lists
  of strings, so Python's \<open>in\<close> is list membership.
\<close>

record credentials_section =
  usernames :: "string list option"
  passwords :: "string list option"

record edgeapi_section =
  api_key :: "string option"

record secrets =
  credentials :: "credentials_section option"
  edgeapi :: "edgeapi_section option"

record session_state =
  logged_in :: bool

definition logout :: "session_state \<Rightarrow> session_state" where
  "logout st = st\<lparr>logged_in := False\<rparr>"

subsection \<open>Login logic\<close>

text \<open>
  The block under \<open>if not st.session_state.logged_in\<close>, for a submitted form. The form
  is not rendered for a session that is already logged in.
\<close>

definition login_form :: "secrets \<Rightarrow> session_state \<Rightarrow> string \<Rightarrow> string \<Rightarrow> session_state \<times> message list" where
  "login_form sec st username password =
     (if logged_in st then (st, [])
      else case credentials sec of
        None \<Rightarrow> (st, [Error ''Missing [credentials] section in your secrets.toml file.''])
      | Some cr \<Rightarrow>
          (case usernames cr of
             None \<Rightarrow> (st, [Error ''Missing 'usernames' or 'passwords' under [credentials] in your secrets.toml file.''])
           | Some us \<Rightarrow>
               (case passwords cr of
                  None \<Rightarrow> (st, [Error ''Missing 'usernames' or 'passwords' under [credentials] in your secrets.toml file.''])
                | Some ps \<Rightarrow>
                    if username \<in> set us \<and> password \<in> set ps
                    then (st\<lparr>logged_in := True\<rparr>, [])
                    else (st, [Error ''Incorrect username or password'']))))"

subsection \<open>Endpoint registry\<close>

record endpoint =
  path :: string
  description :: string
  params :: "string list"
  required_params :: "string list"

text \<open>The five descriptors of the dictionary \<open>endpoints\<close>, named after their keys.\<close>

definition ep_devices :: endpoint where
  "ep_devices =
     \<lparr>path = ''/devices'',
      description = ''Returns device details based on the API Key and optional device serial ID.'',
      params = [''device_serialid''],
      required_params = []\<rparr>"

definition ep_events_interval :: endpoint where
  "ep_events_interval =
     \<lparr>path = ''/events/interval/'',
      description = ''Returns event details based on the device_serialid provided within the time stamps.'',
      params = [''device_serialid'', ''dates''],
      required_params = [''device_serialid'']\<rparr>"

definition ep_power_quality_live :: endpoint where
  "ep_power_quality_live =
     \<lparr>path = ''/powerquality/live/'',
      description = ''Returns live power quality based on the serialid provided.'',
      params = [''device_serialid''],
      required_params = [''device_serialid'']\<rparr>"

definition ep_power_quality_interval :: endpoint where
  "ep_power_quality_interval =
     \<lparr>path = ''/powerquality/interval/'',
      description = ''Returns power quality data based on the provided serialid and the time stamps.'',
      params = [''device_serialid'', ''dates'', ''granularity''],
      required_params = [''device_serialid'', ''granularity'']\<rparr>"

definition ep_power_quality_aggregated :: endpoint where
  "ep_power_quality_aggregated =
     \<lparr>path = ''/powerquality/aggregated/'',
      description = ''Returns aggregated power quality data based on the provided serialid and the time stamps.'',
      params = [''device_serialid'', ''dates'', ''granularity''],
      required_params = [''device_serialid'', ''granularity'']\<rparr>"

text \<open>The dictionary \<open>endpoints\<close>, in its insertion order.\<close>

definition endpoints :: "(string \<times> endpoint) list" where
  "endpoints =
    [(''Devices'', ep_devices),
     (''Events Interval'', ep_events_interval),
     (''Power Quality Live'', ep_power_quality_live),
     (''Power Quality Interval'', ep_power_quality_interval),
     (''Power Quality Aggregated'', ep_power_quality_aggregated)]"

definition base_url :: string where
  "base_url = ''https://v3.edgezeroapi.com/pienergy''"

subsection \<open>Dates and epoch seconds\<close>

text \<open>
  A \<open>datetime.date\<close>. The functions below are those of Python's \<open>datetime\<close> module that
  the script reaches through \<open>date.__sub__\<close>, \<open>datetime.combine\<close> and
  \<open>datetime.timestamp\<close>.
\<close>

record date =
  year :: int
  month :: int
  day :: int

definition is_leap :: "int \<Rightarrow> bool" where
  "is_leap y = (y mod 4 = 0 \<and> (y mod 100 \<noteq> 0 \<or> y mod 400 = 0))"

definition days_before_year :: "int \<Rightarrow> int" where
  "days_before_year y = (y - 1) * 365 + (y - 1) div 4 - (y - 1) div 100 + (y - 1) div 400"

definition days_in_month :: "int \<Rightarrow> int \<Rightarrow> int" where
  "days_in_month y m =
     (if m = 2 then (if is_leap y then 29 else 28)
      else if m = 4 \<or> m = 6 \<or> m = 9 \<or> m = 11 then 30 else 31)"

definition days_before_month :: "int \<Rightarrow> int \<Rightarrow> int" where
  "days_before_month y m =
     [0, 31, 59, 90, 120, 151, 181, 212, 243, 273, 304, 334] ! nat (m - 1)
       + (if 2 < m \<and> is_leap y then 1 else 0)"

definition ymd2ord :: "date \<Rightarrow> int" where
  "ymd2ord d = days_before_year (year d) + days_before_month (year d) (month d) + day d"

text \<open>The dates a \<open>datetime.date\<close> can hold: years 1 to 9999.\<close>

definition valid_date :: "date \<Rightarrow> bool" where
  "valid_date d =
     (1 \<le> year d \<and> year d \<le> 9999 \<and> 1 \<le> month d \<and> month d \<le> 12
      \<and> 1 \<le> day d \<and> day d \<le> days_in_month (year d) (month d))"

text \<open>Python compares dates as the tuples (year, month, day).\<close>

definition date_less :: "date \<Rightarrow> date \<Rightarrow> bool" where
  "date_less a b =
     (year a < year b \<or> (year a = year b \<and> (month a < month b \<or> (month a = month b \<and> day a < day b))))"

text \<open>
  A time of day as (seconds since midnight, microseconds): \<open>time.min\<close> is 00:00:00 and
  \<open>time.max\<close> is 23:59:59.999999.
\<close>

definition time_min :: "int \<times> int" where
  "time_min = (0, 0)"

definition time_max :: "int \<times> int" where
  "time_max = (23 * 3600 + 59 * 60 + 59, 999999)"

text \<open>
  \<open>datetime.combine(d, t, tzinfo=timezone.utc).timestamp()\<close> is
  \<open>(self - _EPOCH).total_seconds()\<close>, with 1970-01-01T00:00:00Z (ordinal 719163) as
  \<open>_EPOCH\<close>. The difference is a \<open>timedelta\<close>, a whole number of microseconds:
\<close>

definition timestamp_us :: "date \<Rightarrow> int \<times> int \<Rightarrow> int" where
  "timestamp_us d t = ((ymd2ord d - 719163) * 86400 + fst t) * 1000000 + snd t"

text \<open>
  \<open>total_seconds()\<close> divides that number by \<open>10**6\<close> with Python's \<open>/\<close> on integers,
  which returns the binary double nearest to the quotient, ties going to the even
  significand. A double is a significand of up to 53 bits times a power of two that is
  at least \<open>2^-1074\<close>.

  \<open>round_half_even p q\<close> is the integer nearest to \<open>p / q\<close> for a positive \<open>q\<close>.
\<close>

definition round_half_even :: "int \<Rightarrow> int \<Rightarrow> int" where
  "round_half_even p q =
     (let f = p div q; r = p mod q
      in if 2 * r < q then f
         else if q < 2 * r then f + 1
         else if even f then f else f + 1)"

text \<open>
  The number of binary places of the double nearest to \<open>a / q\<close>, for a quotient below
  \<open>2^53\<close>: the least \<open>k\<close> from which \<open>a / q * 2^k\<close> reaches \<open>2^52\<close>, and 1074 for the
  quotients too small for that.
\<close>

function scale_up :: "nat \<Rightarrow> int \<Rightarrow> int \<Rightarrow> nat" where
  "scale_up k a q = (if q * 2 ^ 52 \<le> a * 2 ^ k \<or> 1074 \<le> k then k else scale_up (Suc k) a q)"
  by pat_completeness auto
termination
  by (relation "measure (\<lambda>(k, a, q). 1074 - k)") auto

text \<open>
  For a quotient of \<open>2^53\<close> or more the double is a multiple of \<open>2^j\<close>, for the least
  \<open>j\<close> with \<open>a / q < 2^(53 + j)\<close>. The largest exponent of a double is reached at
  \<open>j = 971\<close>; a quotient beyond it needs a dividend of more than 300 digits, and no
  \<open>timedelta\<close> is that long.
\<close>

function scale_down :: "nat \<Rightarrow> int \<Rightarrow> int \<Rightarrow> nat" where
  "scale_down j a q = (if a < q * 2 ^ 53 * 2 ^ j \<or> 971 \<le> j then j else scale_down (Suc j) a q)"
  by pat_completeness auto
termination
  by (relation "measure (\<lambda>(j, a, q). 971 - j)") auto

declare scale_up.simps [simp del]
declare scale_down.simps [simp del]

text \<open>
  \<open>int(a / q)\<close> for integers \<open>0 \<le> a\<close> and \<open>0 < q\<close>: the double nearest to the quotient,
  cut to its whole part.
\<close>

definition int_of_quotient :: "int \<Rightarrow> int \<Rightarrow> int" where
  "int_of_quotient a q =
     (if a < q * 2 ^ 53
      then (let k = scale_up 0 a q in round_half_even (a * 2 ^ k) q div 2 ^ k)
      else (let j = scale_down 0 a q in round_half_even a (q * 2 ^ j) * 2 ^ j))"

text \<open>
  \<open>int(td.total_seconds())\<close> for a \<open>timedelta\<close> of \<open>us\<close> microseconds. Division rounds
  a negative quotient as it rounds its absolute value, and \<open>int\<close> cuts towards zero.
\<close>

definition int_of_seconds :: "int \<Rightarrow> int" where
  "int_of_seconds us =
     (if 0 \<le> us then int_of_quotient us 1000000 else - int_of_quotient (- us) 1000000)"

definition starttime_of :: "date \<Rightarrow> int" where
  "starttime_of start_date = int_of_seconds (timestamp_us start_date time_min)"

definition endtime_of :: "date \<Rightarrow> int" where
  "endtime_of end_date = int_of_seconds (timestamp_us end_date time_max)"

definition date_range_days :: "date \<Rightarrow> date \<Rightarrow> int" where
  "date_range_days start_date end_date = ymd2ord end_date - ymd2ord start_date"

definition granularity_options :: "int \<Rightarrow> string list" where
  "granularity_options n =
     (if n < 1 then [''1m'', ''5m'', ''15m'', ''1h'', ''daily'']
      else if 1 \<le> n \<and> n \<le> 7 then [''15m'', ''1h'', ''daily'']
      else [''1h'', ''daily''])"

subsection \<open>Dynamic input parameters\<close>

text \<open>
  What the user has entered in the widgets: the device text field, the two date pickers
  and the position chosen in the granularity box.
\<close>

record widgets =
  device_text :: string
  start_picked :: date
  end_picked :: date
  granularity_index :: nat

datatype pvalue = PStr string | PInt int | PNone

text \<open>
  The variables the block leaves behind. The dictionary \<open>params\<close> of the script is the
  field \<open>query\<close> (the name \<open>params\<close> is the registry's field); \<open>date_vars\<close> holds
  \<open>start_date\<close> and \<open>end_date\<close> once they are bound, which is what the script asks
  \<open>locals()\<close> for.
\<close>

record form_state =
  full_url :: string
  device_serialid :: string
  query :: "string \<rightharpoonup> pvalue"
  date_vars :: "(date \<times> date) option"

text \<open>
  \<open>st.selectbox(label, options)\<close> returns the chosen option, the first one when nothing
  else is chosen, and \<open>None\<close> for an empty list.
\<close>

definition selectbox :: "string list \<Rightarrow> nat \<Rightarrow> pvalue" where
  "selectbox options i =
     (if options = [] then PNone
      else PStr (options ! (if i < length options then i else 0)))"

definition device_step :: "string \<Rightarrow> endpoint \<Rightarrow> widgets \<Rightarrow> form_state \<Rightarrow> form_state" where
  "device_step selected_endpoint_name selected_endpoint w f =
     (if ''device_serialid'' \<in> set (params selected_endpoint) then
        (let f1 = f\<lparr>device_serialid := device_text w\<rparr> in
         if selected_endpoint_name \<notin> set [''Devices'']
         then f1\<lparr>full_url := base_url @ path selected_endpoint @ device_serialid f1\<rparr>
         else (let f2 = f1\<lparr>full_url := base_url @ path selected_endpoint\<rparr> in
               if device_serialid f2 \<noteq> []
               then f2\<lparr>query := (query f2)(''device_serialid'' \<mapsto> PStr (device_serialid f2))\<rparr>
               else f2))
      else f)"

definition dates_step :: "endpoint \<Rightarrow> widgets \<Rightarrow> form_state \<Rightarrow> form_state" where
  "dates_step selected_endpoint w f =
     (if ''dates'' \<in> set (params selected_endpoint) then
        f\<lparr>query := (query f)(''starttime'' \<mapsto> PInt (starttime_of (start_picked w)),
                              ''endtime'' \<mapsto> PInt (endtime_of (end_picked w))),
          date_vars := Some (start_picked w, end_picked w)\<rparr>
      else f)"

definition granularity_step :: "endpoint \<Rightarrow> widgets \<Rightarrow> form_state \<Rightarrow> form_state" where
  "granularity_step selected_endpoint w f =
     (if ''granularity'' \<in> set (params selected_endpoint) then
        (case date_vars f of
           Some (start_date, end_date) \<Rightarrow>
             f\<lparr>query := (query f)(''granularity'' \<mapsto>
                  selectbox (granularity_options (date_range_days start_date end_date))
                            (granularity_index w))\<rparr>
         | None \<Rightarrow> f)
      else f)"

definition input_parameters :: "string \<Rightarrow> endpoint \<Rightarrow> widgets \<Rightarrow> form_state" where
  "input_parameters selected_endpoint_name selected_endpoint w =
     granularity_step selected_endpoint w
       (dates_step selected_endpoint w
         (device_step selected_endpoint_name selected_endpoint w
           \<lparr>full_url = [], device_serialid = [], query = Map.empty, date_vars = None\<rparr>))"

subsection \<open>Data fetching\<close>

text \<open>
  The loop over \<open>required_params\<close> under the fetch button. It carries
  \<open>validation_passed\<close> and the errors shown so far; \<open>serial\<close> is the variable
  \<open>device_serialid\<close> of the script.
\<close>

fun required_params_loop :: "string list \<Rightarrow> string \<Rightarrow> bool \<times> message list \<Rightarrow> bool \<times> message list" where
  "required_params_loop [] serial acc = acc"
| "required_params_loop (param # rest) serial (validation_passed, shown) =
     (if param = ''device_serialid'' \<and> serial = []
      then required_params_loop rest serial
             (False, shown @ [Error ''Device Serial ID is a required parameter for this endpoint.''])
      else required_params_loop rest serial (validation_passed, shown))"

definition validate :: "endpoint \<Rightarrow> form_state \<Rightarrow> bool \<times> message list" where
  "validate selected_endpoint f =
     required_params_loop (required_params selected_endpoint) (device_serialid f) (True, [])"

text \<open>
  The value of \<open>response.json()\<close>. Numbers are integers here; JSON numbers with a
  fraction are outside the model. A dictionary is the list of its items, with distinct keys.
\<close>

datatype json = JNull | JBool bool | JInt int | JStr string | JArr "json list" | JObj "(string \<times> json) list"

text \<open>Python's truth value of such a value, which \<open>not data\<close> negates.\<close>

fun truthy :: "json \<Rightarrow> bool" where
  "truthy JNull = False"
| "truthy (JBool b) = b"
| "truthy (JInt n) = (n \<noteq> 0)"
| "truthy (JStr s) = (s \<noteq> [])"
| "truthy (JArr xs) = (xs \<noteq> [])"
| "truthy (JObj kvs) = (kvs \<noteq> [])"

text \<open>\<open>isinstance(data, dict) and key in data\<close>, and \<open>data.get(key)\<close>.\<close>

fun dict_has :: "json \<Rightarrow> string \<Rightarrow> bool" where
  "dict_has (JObj kvs) k = (k \<in> set (map fst kvs))"
| "dict_has _ k = False"

fun dict_get :: "json \<Rightarrow> string \<Rightarrow> json option" where
  "dict_get (JObj kvs) k = map_of kvs k"
| "dict_get _ k = None"

text \<open>
  What one click on the fetch button ends in. \<open>ApiError code message\<close> stands for
  \<open>st.error(f"API Error {code}: {message}")\<close> with the two values looked up in the
  body, \<open>NoData\<close> for \<open>st.info("The API returned no data for the given parameters.")\<close>,
  and \<open>Fetched data\<close> for the last branch, the only one that reaches the formatting
  and \<open>st.download_button\<close>.
\<close>

datatype outcome =
    ValidationFailed "message list"
  | ApiKeyMissing
  | HttpError nat
  | UnexpectedError
  | ApiError "json option" "json option"
  | NoData
  | Fetched json

definition handle_data :: "json \<Rightarrow> outcome" where
  "handle_data data =
     (if dict_has data ''error-code''
      then ApiError (dict_get data ''error-code'') (dict_get data ''message'')
      else if \<not> truthy data then NoData
      else Fetched data)"

text \<open>
  The answer of the server to the one GET request: none (a transport failure), or a
  status with a body that parses as JSON or does not. \<open>raise_for_status\<close> raises for
  the statuses 400 to 599.
\<close>

datatype reply = NoReply | Reply nat "json option"

definition fetch_data :: "secrets \<Rightarrow> endpoint \<Rightarrow> form_state \<Rightarrow> reply \<Rightarrow> outcome" where
  "fetch_data sec selected_endpoint f r =
     (case validate selected_endpoint f of
        (False, shown) \<Rightarrow> ValidationFailed shown
      | (True, shown) \<Rightarrow>
          (case edgeapi sec of
             None \<Rightarrow> ApiKeyMissing
           | Some section \<Rightarrow>
               (case api_key section of
                  None \<Rightarrow> ApiKeyMissing
                | Some key \<Rightarrow>
                    (case r of
                       NoReply \<Rightarrow> UnexpectedError
                     | Reply status body \<Rightarrow>
                         if 400 \<le> status \<and> status < 600 then HttpError status
                         else (case body of
                                 None \<Rightarrow> UnexpectedError
                               | Some data \<Rightarrow> handle_data data)))))"

subsection \<open>Readable timestamp columns\<close>

text \<open>
  The table \<open>df\<close> after \<open>pd.json_normalize\<close>: its columns in order, each with one cell
  per row. A cell is an integer, a string, a missing value, or, in a derived column, a
  calendar timestamp or the null timestamp \<open>NaT\<close>.
\<close>

record timestamp =
  ts_date :: date
  ts_hour :: int
  ts_minute :: int
  ts_second :: int

datatype cell = Missing | IntCell int | StrCell string | TimeCell timestamp | NaT

type_synonym dataframe = "(string \<times> cell list) list"

text \<open>Python's \<open>sub in s\<close> on strings.\<close>

fun contains :: "string \<Rightarrow> string \<Rightarrow> bool" where
  "contains sub [] = (sub = [])"
| "contains sub (c # cs) = (take (length sub) (c # cs) = sub \<or> contains sub cs)"

definition time_like :: "string \<Rightarrow> bool" where
  "time_like col = (contains ''time'' col \<or> contains ''date'' col \<or> contains ''epoch'' col)"

text \<open>
  \<open>pd.api.types.is_numeric_dtype\<close> on a column of such cells: pandas gives a column of
  integers the dtype int64, a column of integers and missing values float64, and any
  column with a string or a timestamp in it, or with no integer at all, a dtype that is
  not numeric.
\<close>

fun is_number :: "cell \<Rightarrow> bool" where
  "is_number (IntCell n) = True"
| "is_number _ = False"

fun is_number_or_missing :: "cell \<Rightarrow> bool" where
  "is_number_or_missing (IntCell n) = True"
| "is_number_or_missing Missing = True"
| "is_number_or_missing _ = False"

definition is_numeric_dtype :: "cell list \<Rightarrow> bool" where
  "is_numeric_dtype vals = (list_all is_number_or_missing vals \<and> list_ex is_number vals)"

text \<open>
  The calendar date of a day number, as Python's \<open>date.fromordinal\<close> computes it; the
  timestamp of a number of seconds since 1970-01-01T00:00:00 follows from it.
\<close>

definition ord2ymd :: "int \<Rightarrow> date" where
  "ord2ymd n0 =
     (let n = n0 - 1;
          n400 = n div 146097; n = n mod 146097;
          n100 = n div 36524; n = n mod 36524;
          n4 = n div 1461; n = n mod 1461;
          n1 = n div 365; n = n mod 365;
          y = n400 * 400 + 1 + n100 * 100 + n4 * 4 + n1
      in if n1 = 4 \<or> n100 = 4 then \<lparr>year = y - 1, month = 12, day = 31\<rparr>
         else
           (let leapyear = (n1 = 3 \<and> (n4 \<noteq> 24 \<or> n100 = 3));
                m = (n + 50) div 32;
                preceding = days_before_month 1 m + (if 2 < m \<and> leapyear then 1 else 0)
            in if n < preceding
               then (let m' = m - 1;
                         preceding' = preceding
                           - ((if m' = 2 then 28 else days_in_month 1 m') + (if m' = 2 \<and> leapyear then 1 else 0))
                     in \<lparr>year = y, month = m', day = n - preceding' + 1\<rparr>)
               else \<lparr>year = y, month = m, day = n - preceding + 1\<rparr>))"

definition timestamp_of_seconds :: "int \<Rightarrow> timestamp" where
  "timestamp_of_seconds v =
     (let s = v mod 86400
      in \<lparr>ts_date = ord2ymd (v div 86400 + 719163),
          ts_hour = s div 3600, ts_minute = (s mod 3600) div 60, ts_second = s mod 60\<rparr>)"

text \<open>
  \<open>pd.to_datetime(column, unit='s', errors='coerce')\<close> on a numeric column: a number
  becomes its timestamp, a missing value and a number outside the range of a pandas
  timestamp (nanoseconds in 64 bits) become \<open>NaT\<close>.
\<close>

fun to_datetime_cell :: "cell \<Rightarrow> cell" where
  "to_datetime_cell (IntCell v) =
     (if - 9223372036 \<le> v \<and> v \<le> 9223372036 then TimeCell (timestamp_of_seconds v) else NaT)"
| "to_datetime_cell c = NaT"

definition to_datetime :: "cell list \<Rightarrow> cell list" where
  "to_datetime vals = map to_datetime_cell vals"

text \<open>\<open>df[name] = vals\<close>: an existing column is replaced in place, a new one is appended.\<close>

fun df_set :: "dataframe \<Rightarrow> string \<Rightarrow> cell list \<Rightarrow> dataframe" where
  "df_set [] name vals = [(name, vals)]"
| "df_set ((c, v) # rest) name vals =
     (if c = name then (c, vals) # rest else (c, v) # df_set rest name vals)"

text \<open>
  The loop \<open>for col in df.columns\<close>. It runs over the columns the table had before the
  loop, and reads \<open>df[col]\<close> from the table as the earlier rounds left it.
\<close>

fun readable_loop :: "string list \<Rightarrow> dataframe \<Rightarrow> dataframe" where
  "readable_loop [] df = df"
| "readable_loop (col # cols) df =
     readable_loop cols
       (if time_like col then
          (case map_of df col of
             Some vals \<Rightarrow>
               if is_numeric_dtype vals then df_set df (col @ ''_readable'') (to_datetime vals)
               else df
           | None \<Rightarrow> df)
        else df)"

definition add_readable_columns :: "dataframe \<Rightarrow> dataframe" where
  "add_readable_columns df = readable_loop (map fst df) df"

subsection \<open>Notions of the specification\<close>

text \<open>
  "A non-empty value is present in the current form state" for a parameter name: the
  device id is the variable \<open>device_serialid\<close>, every other parameter is an entry of
  the query dictionary.
\<close>

definition value_present :: "form_state \<Rightarrow> string \<Rightarrow> bool" where
  "value_present f p =
     (if p = ''device_serialid'' then device_serialid f \<noteq> []
      else (case query f p of Some (PStr s) \<Rightarrow> s \<noteq> [] | Some (PInt n) \<Rightarrow> True | _ \<Rightarrow> False))"

text \<open>The day the epoch starts.\<close>

definition epoch_date :: date where
  "epoch_date = \<lparr>year = 1970, month = 1, day = 1\<rparr>"

text \<open>
  The calendar itself, without day numbers: a date with a month from 1 to 12 and a day
  that this month has, the day after a date, and the date \<open>n\<close> days after a date.
\<close>

definition calendar_day :: "date \<Rightarrow> bool" where
  "calendar_day d =
     (1 \<le> month d \<and> month d \<le> 12 \<and> 1 \<le> day d \<and> day d \<le> days_in_month (year d) (month d))"

definition next_day :: "date \<Rightarrow> date" where
  "next_day d =
     (if day d < days_in_month (year d) (month d) then \<lparr>year = year d, month = month d, day = day d + 1\<rparr>
      else if month d < 12 then \<lparr>year = year d, month = month d + 1, day = 1\<rparr>
      else \<lparr>year = year d + 1, month = 1, day = 1\<rparr>)"

fun add_days :: "date \<Rightarrow> nat \<Rightarrow> date" where
  "add_days d 0 = d"
| "add_days d (Suc n) = next_day (add_days d n)"

text \<open>
  The whole second a moment falls in, for a moment given in microseconds since the
  epoch and cut towards zero: the value of \<open>int\<close> on the exact quotient.
\<close>

definition whole_seconds :: "int \<Rightarrow> int" where
  "whole_seconds us = (if 0 \<le> us then us div 1000000 else - ((- us) div 1000000))"


section \<open>Properties\<close>

subsection \<open>Login\<close>

text \<open>
  C1. With both credential lists configured, a login attempt of a session that is not
  logged in succeeds exactly when the username is in the list of usernames and the
  password is in the list of passwords, whatever their positions: the session flag
  becomes true and no error is shown. Every other attempt shows
  'Incorrect username or password' and leaves the flag false.
\<close>

theorem login_unpaired_membership:
  assumes "credentials sec = Some cr" and "usernames cr = Some us" and "passwords cr = Some ps"
    and "\<not> logged_in st"
  shows "(username \<in> set us \<and> password \<in> set ps \<longrightarrow>
            logged_in (fst (login_form sec st username password))
            \<and> snd (login_form sec st username password) = [])
       \<and> (\<not> (username \<in> set us \<and> password \<in> set ps) \<longrightarrow>
            \<not> logged_in (fst (login_form sec st username password))
            \<and> snd (login_form sec st username password) = [Error ''Incorrect username or password''])"
  using assms by (simp add: login_form_def)

theorem login_unpaired_membership_witness:
  "logged_in (fst (login_form
      \<lparr>credentials = Some \<lparr>usernames = Some [''alice'', ''bob''], passwords = Some [''pa'', ''pb'']\<rparr>,
       edgeapi = None\<rparr> \<lparr>logged_in = False\<rparr> ''alice'' ''pb''))
   \<and> snd (login_form
      \<lparr>credentials = Some \<lparr>usernames = Some [''alice'', ''bob''], passwords = Some [''pa'', ''pb'']\<rparr>,
       edgeapi = None\<rparr> \<lparr>logged_in = False\<rparr> ''alice'' ''pc'') = [Error ''Incorrect username or password'']"
  using login_unpaired_membership [of
      "\<lparr>credentials = Some \<lparr>usernames = Some [''alice'', ''bob''], passwords = Some [''pa'', ''pb'']\<rparr>, edgeapi = None\<rparr>"
      "\<lparr>usernames = Some [''alice'', ''bob''], passwords = Some [''pa'', ''pb'']\<rparr>"
      "[''alice'', ''bob'']" "[''pa'', ''pb'']" "\<lparr>logged_in = False\<rparr>" "''alice''" "''pb''"]
    login_unpaired_membership [of
      "\<lparr>credentials = Some \<lparr>usernames = Some [''alice'', ''bob''], passwords = Some [''pa'', ''pb'']\<rparr>, edgeapi = None\<rparr>"
      "\<lparr>usernames = Some [''alice'', ''bob''], passwords = Some [''pa'', ''pb'']\<rparr>"
      "[''alice'', ''bob'']" "[''pa'', ''pb'']" "\<lparr>logged_in = False\<rparr>" "''alice''" "''pc''"]
  by simp

subsection \<open>Calendar arithmetic\<close>

lemma div_succ:
  fixes n k :: int
  assumes "0 < k"
  shows "(n + 1) div k = n div k + (if (n + 1) mod k = 0 then 1 else 0)"
proof (cases "n mod k = k - 1")
  case True
  have "n + 1 = k * (n div k) + n mod k + 1" by (simp only: mult_div_mod_eq)
  also have "\<dots> = k * (n div k + 1) + 0" by (simp only: True) (simp add: algebra_simps)
  finally have eq: "n + 1 = k * (n div k + 1) + 0" .
  have z: "(0::int) \<le> 0" by simp
  have "(n + 1) div k = n div k + 1" by (rule int_div_pos_eq [OF eq z assms])
  moreover have "(n + 1) mod k = 0" by (rule int_mod_pos_eq [OF eq z assms])
  ultimately show ?thesis by simp
next
  case False
  have r: "0 \<le> n mod k" "n mod k < k" using assms by simp_all
  have "n + 1 = k * (n div k) + n mod k + 1" by (simp only: mult_div_mod_eq)
  then have eq: "n + 1 = k * (n div k) + (n mod k + 1)" by (simp only: add.assoc)
  have b1: "0 \<le> n mod k + 1" using r by linarith
  have b2: "n mod k + 1 < k" using r False by linarith
  have "(n + 1) div k = n div k" by (rule int_div_pos_eq [OF eq b1 b2])
  moreover have "(n + 1) mod k = n mod k + 1" by (rule int_mod_pos_eq [OF eq b1 b2])
  moreover have "n mod k + 1 \<noteq> 0" using r(1) by linarith
  ultimately show ?thesis by simp
qed

lemma div_pred:
  fixes n k :: int
  assumes "0 < k"
  shows "n div k = (n - 1) div k + (if n mod k = 0 then 1 else 0)"
proof -
  have e: "n - 1 + 1 = n" by simp
  show ?thesis using div_succ [OF assms, of "n - 1"] by (simp only: e)
qed

lemma leap_mods:
  fixes y :: int
  shows "y mod 100 = 0 \<Longrightarrow> y mod 4 = 0" and "y mod 400 = 0 \<Longrightarrow> y mod 100 = 0"
proof -
  have "(4::int) dvd 100" "(100::int) dvd 400" by simp_all
  then show "y mod 100 = 0 \<Longrightarrow> y mod 4 = 0" "y mod 400 = 0 \<Longrightarrow> y mod 100 = 0"
    by (auto simp only: mod_eq_0_iff_dvd intro: dvd_trans)
qed

lemma days_before_year_step:
  "days_before_year (y + 1) = days_before_year y + (if is_leap y then 366 else 365)"
proof -
  define A where "A = (y - 1) div 4"
  define B where "B = (y - 1) div 100"
  define C where "C = (y - 1) div 400"
  define c4 where "c4 = (y mod 4 = 0)"
  define c100 where "c100 = (y mod 100 = 0)"
  define c400 where "c400 = (y mod 400 = 0)"
  define i4 :: int where "i4 = (if c4 then 1 else 0)"
  define i100 :: int where "i100 = (if c100 then 1 else 0)"
  define i400 :: int where "i400 = (if c400 then 1 else 0)"
  have d4: "y div 4 = A + i4" unfolding A_def i4_def c4_def by (rule div_pred) simp
  have d100: "y div 100 = B + i100" unfolding B_def i100_def c100_def by (rule div_pred) simp
  have d400: "y div 400 = C + i400" unfolding C_def i400_def c400_def by (rule div_pred) simp
  have imp: "c100 \<longrightarrow> c4" "c400 \<longrightarrow> c100"
    unfolding c4_def c100_def c400_def using leap_mods [of y] by blast+
  have lp: "is_leap y = (c4 \<and> (\<not> c100 \<or> c400))"
    unfolding is_leap_def c4_def c100_def c400_def by (rule refl)
  have l: "365 + i4 - i100 + i400 = (if is_leap y then 366 else 365)"
    unfolding lp i4_def i100_def i400_def using imp
    by (cases c4; cases c100; cases c400) simp_all
  have "days_before_year (y + 1) = y * 365 + y div 4 - y div 100 + y div 400"
    by (simp add: days_before_year_def)
  also have "\<dots> = y * 365 + (A + i4) - (B + i100) + (C + i400)"
    by (simp only: d4 d100 d400)
  also have "\<dots> = ((y - 1) * 365 + A - B + C) + (365 + i4 - i100 + i400)"
    by (simp add: algebra_simps)
  also have "(y - 1) * 365 + A - B + C = days_before_year y"
    by (simp only: days_before_year_def A_def B_def C_def)
  finally show ?thesis by (simp only: l)
qed

lemma div_diff_le:
  fixes a b :: int
  assumes "a \<le> b"
  shows "b div 100 - a div 100 \<le> b - a"
proof -
  have "b div 100 \<le> (a + (b - a) * 100) div 100"
    using assms by (intro zdiv_mono1) auto
  also have "\<dots> = a div 100 + (b - a)" by simp
  finally show ?thesis by simp
qed

lemma lin_year:
  fixes a b p p' q q' r r' :: int
  assumes "p \<le> p'" "q \<le> q'" "r' - r \<le> b - a" "a \<le> b"
  shows "(a - 1) * 365 + p - r + q \<le> (b - 1) * 365 + p' - r' + q'"
  using assms by (simp add: algebra_simps)

lemma days_before_year_mono:
  assumes "a \<le> b"
  shows "days_before_year a \<le> days_before_year b"
proof -
  have ab: "a - 1 \<le> b - 1" using assms by simp
  have f1: "(a - 1) div 4 \<le> (b - 1) div 4" by (rule zdiv_mono1 [OF ab]) simp
  have f2: "(a - 1) div 400 \<le> (b - 1) div 400" by (rule zdiv_mono1 [OF ab]) simp
  have "(b - 1) div 100 - (a - 1) div 100 \<le> (b - 1) - (a - 1)" by (rule div_diff_le [OF ab])
  then have f3: "(b - 1) div 100 - (a - 1) div 100 \<le> b - a" by simp
  show ?thesis unfolding days_before_year_def by (rule lin_year [OF f1 f2 f3 assms])
qed

lemma month_cases:
  fixes m :: int
  assumes "1 \<le> m" "m \<le> 12"
  shows "m = 1 \<or> m = 2 \<or> m = 3 \<or> m = 4 \<or> m = 5 \<or> m = 6 \<or> m = 7 \<or> m = 8 \<or> m = 9 \<or> m = 10 \<or> m = 11 \<or> m = 12"
  using assms by presburger

lemma days_before_month_next:
  assumes "1 \<le> m" "m \<le> 12"
  shows "days_before_month y m + days_in_month y m =
         (if m = 12 then (if is_leap y then 366 else 365) else days_before_month y (m + 1))"
  using month_cases [OF assms]
  by (elim disjE) (simp_all add: days_before_month_def days_in_month_def)

lemma days_before_month_step_le:
  assumes "1 \<le> m" "m \<le> 11"
  shows "days_before_month y m \<le> days_before_month y (m + 1)"
proof -
  have "0 \<le> days_in_month y m" by (simp add: days_in_month_def)
  moreover have "days_before_month y m + days_in_month y m = days_before_month y (m + 1)"
    using days_before_month_next [of m y] assms by simp
  ultimately show ?thesis by linarith
qed

lemma days_before_month_mono:
  assumes "1 \<le> m" "m \<le> m'" "m' \<le> 12"
  shows "days_before_month y m \<le> days_before_month y m'"
proof -
  have "\<And>k. days_before_month y m \<le> days_before_month y (m + int k) \<or> 12 < m + int k"
  proof -
    fix k show "days_before_month y m \<le> days_before_month y (m + int k) \<or> 12 < m + int k"
    proof (induction k)
      case 0
      then show ?case by simp
    next
      case (Suc k)
      show ?case
      proof (cases "12 < m + int (Suc k)")
        case True
        then show ?thesis by simp
      next
        case False
        then have b: "1 \<le> m + int k" "m + int k \<le> 11" using assms(1) by simp_all
        have "days_before_month y (m + int k) \<le> days_before_month y (m + int k + 1)"
          by (rule days_before_month_step_le [OF b])
        moreover have "days_before_month y m \<le> days_before_month y (m + int k)"
          using Suc b by linarith
        ultimately have le: "days_before_month y m \<le> days_before_month y (m + int k + 1)"
          by linarith
        have e: "m + int (Suc k) = m + int k + 1" by simp
        show ?thesis unfolding e using le by (rule disjI1)
      qed
    qed
  qed
  from this [of "nat (m' - m)"] show ?thesis using assms by simp
qed

lemma days_before_month_nonneg:
  assumes "1 \<le> m" "m \<le> 12"
  shows "0 \<le> days_before_month y m"
proof -
  have "days_before_month y 1 = 0" by (simp add: days_before_month_def)
  then show ?thesis using days_before_month_mono [of 1 m y] assms by simp
qed

lemma days_before_month_last:
  assumes "1 \<le> m" "m \<le> 12"
  shows "days_before_month y m + days_in_month y m \<le> (if is_leap y then 366 else 365)"
proof (cases "m = 12")
  case True
  then show ?thesis using days_before_month_next [OF assms, of y] by simp
next
  case False
  then have "days_before_month y m + days_in_month y m = days_before_month y (m + 1)"
    using days_before_month_next [OF assms, of y] by simp
  also have "\<dots> \<le> days_before_month y 12"
    using assms False by (intro days_before_month_mono) auto
  also have "\<dots> \<le> (if is_leap y then 366 else 365)"
    by (simp add: days_before_month_def)
  finally show ?thesis .
qed

lemma valid_date_calendar_day: "valid_date d \<Longrightarrow> calendar_day d"
  by (simp add: valid_date_def calendar_day_def)

lemma ymd2ord_strict_mono:
  assumes va: "calendar_day a" and vb: "calendar_day b" and lt: "date_less a b"
  shows "ymd2ord a < ymd2ord b"
proof -
  have ma: "1 \<le> month a" "month a \<le> 12" "1 \<le> day a" "day a \<le> days_in_month (year a) (month a)"
    using va by (simp_all add: calendar_day_def)
  have mb: "1 \<le> month b" "month b \<le> 12" "1 \<le> day b"
    using vb by (simp_all add: calendar_day_def)
  consider (y) "year a < year b"
    | (m) "year a = year b" "month a < month b"
    | (d) "year a = year b" "month a = month b" "day a < day b"
    using lt unfolding date_less_def by blast
  then show ?thesis
  proof cases
    case y
    have "ymd2ord a \<le> days_before_year (year a) + (if is_leap (year a) then 366 else 365)"
      using days_before_month_last [OF ma(1,2), of "year a"] ma(4) unfolding ymd2ord_def by linarith
    also have "\<dots> = days_before_year (year a + 1)"
      by (simp only: days_before_year_step)
    also have "\<dots> \<le> days_before_year (year b)"
      using y by (intro days_before_year_mono) simp
    also have "\<dots> < ymd2ord b"
      using days_before_month_nonneg [OF mb(1,2), of "year b"] mb(3) unfolding ymd2ord_def by linarith
    finally show ?thesis .
  next
    case m
    have "days_before_month (year a) (month a) + days_in_month (year a) (month a)
            = days_before_month (year a) (month a + 1)"
      using days_before_month_next [OF ma(1,2), of "year a"] m(2) mb(2) by simp
    also have "\<dots> \<le> days_before_month (year a) (month b)"
      using ma m mb by (intro days_before_month_mono) auto
    finally show ?thesis using ma(4) mb(3) unfolding ymd2ord_def m(1) [symmetric] by linarith
  next
    case d
    then show ?thesis unfolding ymd2ord_def by simp
  qed
qed

subsection \<open>The registry and the parameter form\<close>

lemmas form_defs = input_parameters_def device_step_def dates_step_def granularity_step_def
lemmas ep_defs = ep_devices_def ep_events_interval_def ep_power_quality_live_def
  ep_power_quality_interval_def ep_power_quality_aggregated_def

lemma endpoints_cases:
  assumes "(name, ep) \<in> set endpoints"
  obtains "name = ''Devices''" "ep = ep_devices"
  | "name = ''Events Interval''" "ep = ep_events_interval"
  | "name = ''Power Quality Live''" "ep = ep_power_quality_live"
  | "name = ''Power Quality Interval''" "ep = ep_power_quality_interval"
  | "name = ''Power Quality Aggregated''" "ep = ep_power_quality_aggregated"
proof -
  from assms have "(name = ''Devices'' \<and> ep = ep_devices)
     \<or> (name = ''Events Interval'' \<and> ep = ep_events_interval)
     \<or> (name = ''Power Quality Live'' \<and> ep = ep_power_quality_live)
     \<or> (name = ''Power Quality Interval'' \<and> ep = ep_power_quality_interval)
     \<or> (name = ''Power Quality Aggregated'' \<and> ep = ep_power_quality_aggregated)"
    unfolding endpoints_def by (simp only: list.set insert_iff empty_iff prod.inject simp_thms)
  then show thesis
    apply (elim disjE conjE)
    apply (erule (1) that(1))
    apply (erule (1) that(2))
    apply (erule (1) that(3))
    apply (erule (1) that(4))
    apply (erule (1) that(5))
    done
qed

lemma form_device:
  assumes "(name, ep) \<in> set endpoints"
  shows "device_serialid (input_parameters name ep w) = device_text w"
  using assms by (rule endpoints_cases) (simp_all add: form_defs ep_defs Let_def)

lemma form_dates:
  assumes "(name, ep) \<in> set endpoints" and "''dates'' \<in> set (params ep)"
  shows "query (input_parameters name ep w) ''starttime'' = Some (PInt (starttime_of (start_picked w)))
       \<and> query (input_parameters name ep w) ''endtime'' = Some (PInt (endtime_of (end_picked w)))
       \<and> date_vars (input_parameters name ep w) = Some (start_picked w, end_picked w)"
  apply (insert assms(2))
  apply (rule endpoints_cases [OF assms(1)])
  apply (simp_all add: form_defs ep_defs Let_def)
  done

lemma form_granularity:
  assumes "(name, ep) \<in> set endpoints" and "''granularity'' \<in> set (params ep)"
  shows "''dates'' \<in> set (params ep)
       \<and> query (input_parameters name ep w) ''granularity'' =
           Some (selectbox (granularity_options (date_range_days (start_picked w) (end_picked w)))
                           (granularity_index w))"
  apply (insert assms(2))
  apply (rule endpoints_cases [OF assms(1)])
  apply (simp_all add: form_defs ep_defs Let_def)
  done

lemma granularity_options_nonempty: "granularity_options n \<noteq> []"
  by (simp add: granularity_options_def)

lemma granularity_options_strings: "g \<in> set (granularity_options n) \<Longrightarrow> g \<noteq> []"
  by (auto simp add: granularity_options_def split: if_splits)

lemma selectbox_member:
  assumes "options \<noteq> []"
  shows "\<exists>g. selectbox options i = PStr g \<and> g \<in> set options"
  using assms by (simp add: selectbox_def)

subsection \<open>Dates, epoch seconds and granularity\<close>

lemma ymd2ord_epoch: "ymd2ord epoch_date = 719163"
  by (simp add: epoch_date_def ymd2ord_def days_before_year_def days_before_month_def)

lemma valid_epoch: "valid_date epoch_date"
  by (simp add: epoch_date_def valid_date_def days_in_month_def)

subsection \<open>Division to a double\<close>

lemma round_half_even_bounds:
  assumes "0 < q"
  shows "2 * (q * round_half_even p q) \<le> 2 * p + q \<and> 2 * p - q \<le> 2 * (q * round_half_even p q)"
proof -
  define f where "f = p div q"
  define r where "r = p mod q"
  define R where "R = round_half_even p q"
  have p: "p = q * f + r" unfolding f_def r_def by simp
  have r: "0 \<le> r" "r < q" unfolding r_def using assms by simp_all
  have e: "R = (if 2 * r < q then f else if q < 2 * r then f + 1 else if even f then f else f + 1)"
    unfolding R_def round_half_even_def f_def r_def Let_def ..
  have s: "q * (f + 1) = q * f + q" by (simp add: algebra_simps)
  consider (a) "R = f" "2 * r \<le> q" | (b) "R = f + 1" "q \<le> 2 * r"
    unfolding e by (cases "2 * r < q"; cases "q < 2 * r"; cases "even f") simp_all
  then have "2 * (q * R) \<le> 2 * p + q \<and> 2 * p - q \<le> 2 * (q * R)"
  proof cases
    case a
    show ?thesis unfolding a(1) p using a(2) r by simp
  next
    case b
    show ?thesis unfolding b(1) p s using b(2) r by simp
  qed
  then show ?thesis unfolding R_def .
qed

lemma round_half_even_lower:
  assumes "0 < q" and "2 * (q * (m - 1)) < 2 * p - q"
  shows "m \<le> round_half_even p q"
proof -
  have "2 * (q * (m - 1)) < 2 * (q * round_half_even p q)"
    using round_half_even_bounds [OF assms(1), of p] assms(2) by linarith
  then have "q * (m - 1) < q * round_half_even p q" by simp
  then have "m - 1 < round_half_even p q" using assms(1) by (simp only: mult_less_cancel_left_pos)
  then show ?thesis by simp
qed

lemma round_half_even_upper:
  assumes "0 < q" and "2 * p + q < 2 * (q * (m + 1))"
  shows "round_half_even p q \<le> m"
proof -
  have "2 * (q * round_half_even p q) < 2 * (q * (m + 1))"
    using round_half_even_bounds [OF assms(1), of p] assms(2) by linarith
  then have "q * round_half_even p q < q * (m + 1)" by simp
  then have "round_half_even p q < m + 1" using assms(1) by (simp only: mult_less_cancel_left_pos)
  then show ?thesis by simp
qed

lemma round_scaled_floor:
  fixes K :: int
  assumes q: "0 < q" and c: "0 \<le> c" and K: "0 < K" and far: "q < 2 * ((q - c) * K)"
  shows "round_half_even ((x * q + c) * K) q div K = x"
proof -
  define A where "A = q * (x * K)"
  define B where "B = c * K"
  define C where "C = q * K"
  define r where "r = round_half_even ((x * q + c) * K) q"
  have P: "(x * q + c) * K = A + B" unfolding A_def B_def by (simp add: algebra_simps)
  have B0: "0 \<le> B" unfolding B_def using c K by simp
  have far': "q < 2 * (C - B)" using far unfolding C_def B_def by (simp add: algebra_simps)
  have l: "q * (x * K - 1) = A - q" unfolding A_def by (simp add: algebra_simps)
  have u: "q * (((x + 1) * K - 1) + 1) = A + C" unfolding A_def C_def by (simp add: algebra_simps)
  have "2 * (q * (x * K - 1)) < 2 * ((x * q + c) * K) - q"
    unfolding l P using q B0 by arith
  then have lo: "x * K \<le> r" unfolding r_def by (rule round_half_even_lower [OF q])
  have "2 * ((x * q + c) * K) + q < 2 * (q * (((x + 1) * K - 1) + 1))"
    unfolding u P using far' by arith
  then have hi: "r \<le> (x + 1) * K - 1" unfolding r_def by (rule round_half_even_upper [OF q])
  have eq: "r = K * x + (r - x * K)" by (simp add: algebra_simps)
  have b1: "0 \<le> r - x * K" using lo by simp
  have b2: "r - x * K < K" using hi by (simp add: algebra_simps)
  show ?thesis unfolding r_def [symmetric] by (rule int_div_pos_eq [OF eq b1 b2])
qed

lemma round_scaled_ceil:
  fixes K :: int
  assumes q: "0 < q" and c: "c < q" and K: "0 < K" and near: "2 * ((q - c) * K) < q"
  shows "round_half_even ((x * q + c) * K) q div K = x + 1"
proof -
  define A where "A = q * (x * K)"
  define B where "B = c * K"
  define C where "C = q * K"
  define r where "r = round_half_even ((x * q + c) * K) q"
  have P: "(x * q + c) * K = A + B" unfolding A_def B_def by (simp add: algebra_simps)
  have BC: "B < C" unfolding B_def C_def using c K by simp
  have near': "2 * (C - B) < q" using near unfolding C_def B_def by (simp add: algebra_simps)
  have l: "q * ((x + 1) * K - 1) = A + C - q" unfolding A_def C_def by (simp add: algebra_simps)
  have u: "q * ((x + 1) * K + 1) = A + C + q" unfolding A_def C_def by (simp add: algebra_simps)
  have "2 * (q * ((x + 1) * K - 1)) < 2 * ((x * q + c) * K) - q"
    unfolding l P using near' by arith
  then have lo: "(x + 1) * K \<le> r" unfolding r_def by (rule round_half_even_lower [OF q])
  have "2 * ((x * q + c) * K) + q < 2 * (q * ((x + 1) * K + 1))"
    unfolding u P using q BC by arith
  then have hi: "r \<le> (x + 1) * K" unfolding r_def by (rule round_half_even_upper [OF q])
  have "r = (x + 1) * K" using lo hi by simp
  then show ?thesis unfolding r_def [symmetric] using K by simp
qed

lemma scale_up_start: "k \<le> scale_up k a q"
proof (induction k a q rule: scale_up.induct)
  case (1 k a q)
  show ?case
  proof (cases "q * 2 ^ 52 \<le> a * 2 ^ k \<or> 1074 \<le> k")
    case True
    then show ?thesis by (simp add: scale_up.simps [of k a q])
  next
    case False
    then have "Suc k \<le> scale_up (Suc k) a q" by (rule 1)
    then show ?thesis using False by (simp add: scale_up.simps [of k a q])
  qed
qed

lemma scale_up_le:
  assumes "q * 2 ^ 52 \<le> a * 2 ^ m" and "k \<le> m"
  shows "scale_up k a q \<le> m"
  using assms
proof (induction k a q rule: scale_up.induct)
  case (1 k a q)
  show ?case
  proof (cases "q * 2 ^ 52 \<le> a * 2 ^ k \<or> 1074 \<le> k")
    case True
    then show ?thesis using 1(3) by (simp add: scale_up.simps [of k a q])
  next
    case False
    then have "k \<noteq> m" using 1(2) by auto
    then have "Suc k \<le> m" using 1(3) by simp
    then have "scale_up (Suc k) a q \<le> m" using 1(1) [OF False 1(2)] by simp
    then show ?thesis using False by (simp add: scale_up.simps [of k a q])
  qed
qed

lemma scale_up_ge_from:
  assumes "0 \<le> a" and "a * 2 ^ n < q * 2 ^ 52" and "n < 1074" and "k \<le> Suc n"
  shows "Suc n \<le> scale_up k a q"
  using assms
proof (induction k a q rule: scale_up.induct)
  case (1 k a q)
  show ?case
  proof (cases "q * 2 ^ 52 \<le> a * 2 ^ k \<or> 1074 \<le> k")
    case True
    have "\<not> k \<le> n"
    proof
      assume kn: "k \<le> n"
      have "(2::int) ^ k \<le> 2 ^ n" using kn by (intro power_increasing) simp_all
      then have "a * 2 ^ k \<le> a * 2 ^ n" using 1(2) by (rule mult_left_mono)
      then show False using True 1(3) 1(4) kn by linarith
    qed
    then have "Suc n \<le> k" by simp
    then show ?thesis using True by (simp add: scale_up.simps [of k a q])
  next
    case False
    show ?thesis
    proof (cases "k = Suc n")
      case True
      show ?thesis unfolding True [symmetric] by (rule scale_up_start)
    next
      case neq: False
      then have "Suc k \<le> Suc n" using 1(5) by simp
      then have "Suc n \<le> scale_up (Suc k) a q" by (rule 1(1) [OF False 1(2) 1(3) 1(4)])
      then show ?thesis using False by (simp add: scale_up.simps [of k a q])
    qed
  qed
qed

lemma scale_up_ge:
  assumes "0 \<le> a" and "a * 2 ^ n < q * 2 ^ 52" and "n < 1074"
  shows "Suc n \<le> scale_up 0 a q"
  by (rule scale_up_ge_from [OF assms]) simp

lemma int_of_quotient_scaled:
  assumes "a < 1000000 * 2 ^ 53"
  shows "int_of_quotient a 1000000 =
           round_half_even (a * 2 ^ scale_up 0 a 1000000) 1000000 div 2 ^ scale_up 0 a 1000000"
  unfolding int_of_quotient_def Let_def using assms by (rule if_P)

lemma int_of_quotient_floor:
  assumes a: "a = x * 1000000 + c" and c: "0 \<le> c" and small: "a < 1000000 * 2 ^ 53"
    and far: "1000000 < 2 * ((1000000 - c) * 2 ^ scale_up 0 a 1000000)"
  shows "int_of_quotient a 1000000 = x"
proof -
  define k where "k = scale_up 0 a 1000000"
  have K: "(0::int) < 2 ^ k" by simp
  have q: "(0::int) < 1000000" by simp
  have far': "1000000 < 2 * ((1000000 - c) * 2 ^ k)" using far unfolding k_def .
  have "round_half_even (a * 2 ^ k) 1000000 div 2 ^ k = x"
    unfolding a by (rule round_scaled_floor [OF q c K far'])
  then show ?thesis unfolding int_of_quotient_scaled [OF small] k_def [symmetric] .
qed

lemma int_of_quotient_ceil:
  assumes a: "a = x * 1000000 + c" and c: "c < 1000000" and small: "a < 1000000 * 2 ^ 53"
    and near: "2 * ((1000000 - c) * 2 ^ scale_up 0 a 1000000) < 1000000"
  shows "int_of_quotient a 1000000 = x + 1"
proof -
  define k where "k = scale_up 0 a 1000000"
  have K: "(0::int) < 2 ^ k" by simp
  have q: "(0::int) < 1000000" by simp
  have near': "2 * ((1000000 - c) * 2 ^ k) < 1000000" using near unfolding k_def .
  have "round_half_even (a * 2 ^ k) 1000000 div 2 ^ k = x + 1"
    unfolding a by (rule round_scaled_ceil [OF q c K near'])
  then show ?thesis unfolding int_of_quotient_scaled [OF small] k_def [symmetric] .
qed

text \<open>A whole number of seconds below \<open>2^53\<close> is a double, and comes back as it is.\<close>

lemma int_of_quotient_whole:
  assumes "x < 2 ^ 53"
  shows "int_of_quotient (x * 1000000) 1000000 = x"
proof (rule int_of_quotient_floor [where c = 0])
  show "x * 1000000 = x * 1000000 + 0" by simp
  show "(0::int) \<le> 0" by simp
  show "x * 1000000 < 1000000 * 2 ^ 53" using assms by simp
  define K :: int where "K = 2 ^ scale_up 0 (x * 1000000) 1000000"
  have "1 \<le> K" unfolding K_def by simp
  then show "1000000 < 2 * ((1000000 - 0) * (2::int) ^ scale_up 0 (x * 1000000) 1000000)"
    unfolding K_def [symmetric] by simp
qed

text \<open>One microsecond past a whole second: the whole second.\<close>

lemma int_of_quotient_just_after:
  assumes "x < 2 ^ 52"
  shows "int_of_quotient (x * 1000000 + 1) 1000000 = x"
proof (rule int_of_quotient_floor [where c = 1])
  show "x * 1000000 + 1 = x * 1000000 + 1" ..
  show "(0::int) \<le> 1" by simp
  show "x * 1000000 + 1 < 1000000 * 2 ^ 53" using assms by simp
  define K :: int where "K = 2 ^ scale_up 0 (x * 1000000 + 1) 1000000"
  have "1 \<le> K" unfolding K_def by simp
  then show "1000000 < 2 * ((1000000 - 1) * (2::int) ^ scale_up 0 (x * 1000000 + 1) 1000000)"
    unfolding K_def [symmetric] by simp
qed

text \<open>
  One microsecond before a whole second: below \<open>2^34\<close> seconds the double keeps at
  least 19 binary places and stays under the next second; from \<open>2^34\<close> seconds on it
  has 18 places at most, and the nearest double is the next second itself.
\<close>

lemma int_of_quotient_just_before:
  assumes "0 \<le> x" and "x * 1000000 + 999999 < 1000000 * 2 ^ 34"
  shows "int_of_quotient (x * 1000000 + 999999) 1000000 = x"
proof (rule int_of_quotient_floor [where c = 999999])
  define a where "a = x * 1000000 + 999999"
  show "x * 1000000 + 999999 = x * 1000000 + 999999" ..
  show "(0::int) \<le> 999999" by simp
  show "x * 1000000 + 999999 < 1000000 * 2 ^ 53" using assms(2) by simp
  have a0: "0 \<le> a" unfolding a_def using assms(1) by simp
  have "a * 2 ^ 18 < 1000000 * 2 ^ 52" using assms(2) unfolding a_def by simp
  then have "Suc 18 \<le> scale_up 0 a 1000000" by (rule scale_up_ge [OF a0]) simp
  then have "(2::int) ^ Suc 18 \<le> 2 ^ scale_up 0 a 1000000"
    by (intro power_increasing) simp_all
  moreover define K :: int where "K = 2 ^ scale_up 0 a 1000000"
  ultimately have "524288 \<le> K" by simp
  then show "1000000 < 2 * ((1000000 - 999999) * (2::int) ^ scale_up 0 (x * 1000000 + 999999) 1000000)"
    unfolding a_def [symmetric] K_def [symmetric] by simp
qed

lemma int_of_quotient_rounds_up:
  assumes "1000000 * 2 ^ 34 \<le> x * 1000000 + 999999" and "x * 1000000 + 999999 < 1000000 * 2 ^ 53"
  shows "int_of_quotient (x * 1000000 + 999999) 1000000 = x + 1"
proof (rule int_of_quotient_ceil [where c = 999999])
  define a where "a = x * 1000000 + 999999"
  show "x * 1000000 + 999999 = x * 1000000 + 999999" ..
  show "(999999::int) < 1000000" by simp
  show "x * 1000000 + 999999 < 1000000 * 2 ^ 53" by (rule assms(2))
  have "1000000 * 2 ^ 52 \<le> a * 2 ^ 18" using assms(1) unfolding a_def by simp
  then have "scale_up 0 a 1000000 \<le> 18" by (rule scale_up_le) simp
  then have "(2::int) ^ scale_up 0 a 1000000 \<le> 2 ^ 18"
    by (intro power_increasing) simp_all
  moreover define K :: int where "K = 2 ^ scale_up 0 a 1000000"
  ultimately have "K \<le> 262144" by simp
  then show "2 * ((1000000 - 999999) * (2::int) ^ scale_up 0 (x * 1000000 + 999999) 1000000) < 1000000"
    unfolding a_def [symmetric] K_def [symmetric] by simp
qed

subsection \<open>The calendar, day by day\<close>

lemma days_in_month_range: "28 \<le> days_in_month y m \<and> days_in_month y m \<le> 31"
  by (simp add: days_in_month_def)

lemma next_day_calendar:
  assumes "calendar_day d"
  shows "calendar_day (next_day d)"
proof -
  have c: "1 \<le> month d" "month d \<le> 12" "1 \<le> day d" "day d \<le> days_in_month (year d) (month d)"
    using assms by (simp_all add: calendar_day_def)
  have r: "1 \<le> days_in_month y m" for y m using days_in_month_range [of y m] by linarith
  show ?thesis using c r unfolding next_day_def calendar_day_def by simp
qed

lemma ymd2ord_next_day:
  assumes "calendar_day d"
  shows "ymd2ord (next_day d) = ymd2ord d + 1"
proof -
  have c: "1 \<le> month d" "month d \<le> 12" "1 \<le> day d" "day d \<le> days_in_month (year d) (month d)"
    using assms by (simp_all add: calendar_day_def)
  consider (same) "day d < days_in_month (year d) (month d)"
    | (month) "day d = days_in_month (year d) (month d)" "month d < 12"
    | (year) "day d = days_in_month (year d) (month d)" "month d = 12"
    using c by linarith
  then show ?thesis
  proof cases
    case same
    then show ?thesis by (simp add: next_day_def ymd2ord_def)
  next
    case month
    have "days_before_month (year d) (month d) + days_in_month (year d) (month d)
            = days_before_month (year d) (month d + 1)"
      using days_before_month_next [OF c(1,2), of "year d"] month(2) by simp
    then show ?thesis using month by (simp add: next_day_def ymd2ord_def)
  next
    case year
    have "days_before_month (year d) (month d) + days_in_month (year d) (month d)
            = (if is_leap (year d) then 366 else 365)"
      using days_before_month_next [OF c(1,2), of "year d"] year(2) by simp
    moreover have "days_before_month (year d + 1) 1 = 0" by (simp add: days_before_month_def)
    ultimately show ?thesis using year
      by (simp add: next_day_def ymd2ord_def days_before_year_step)
  qed
qed

lemma add_days_calendar:
  assumes "calendar_day d"
  shows "calendar_day (add_days d n)"
  by (induction n) (simp_all add: assms next_day_calendar)

lemma ymd2ord_add_days:
  assumes "calendar_day d"
  shows "ymd2ord (add_days d n) = ymd2ord d + int n"
  by (induction n) (simp_all add: ymd2ord_next_day add_days_calendar [OF assms])

lemma date_trichotomy: "date_less a b \<or> a = b \<or> date_less b a"
  by (cases a; cases b) (auto simp add: date_less_def)

lemma date_less_asym: "date_less a b \<Longrightarrow> \<not> date_less b a"
  unfolding date_less_def by linarith

lemma date_less_iff_ord:
  assumes "calendar_day a" and "calendar_day b"
  shows "date_less a b \<longleftrightarrow> ymd2ord a < ymd2ord b"
proof
  assume "date_less a b"
  then show "ymd2ord a < ymd2ord b" by (rule ymd2ord_strict_mono [OF assms])
next
  assume lt: "ymd2ord a < ymd2ord b"
  show "date_less a b"
  proof (rule ccontr)
    assume "\<not> date_less a b"
    then consider "a = b" | "date_less b a" using date_trichotomy [of a b] by blast
    then show False
    proof cases
      case 1
      then show False using lt by simp
    next
      case 2
      then have "ymd2ord b < ymd2ord a" by (rule ymd2ord_strict_mono [OF assms(2,1)])
      then show False using lt by simp
    qed
  qed
qed

lemma ymd2ord_inj:
  assumes "calendar_day a" and "calendar_day b" and "ymd2ord a = ymd2ord b"
  shows "a = b"
proof -
  have "\<not> date_less a b" "\<not> date_less b a"
    using assms(3) date_less_iff_ord [OF assms(1,2)] date_less_iff_ord [OF assms(2,1)] by simp_all
  then show ?thesis using date_trichotomy [of a b] by blast
qed

text \<open>The day numbers of the dates a \<open>datetime.date\<close> can hold.\<close>

lemma ymd2ord_range:
  assumes "valid_date d"
  shows "1 \<le> ymd2ord d \<and> ymd2ord d \<le> 3652059"
proof -
  have v: "1 \<le> year d" "year d \<le> 9999" "1 \<le> month d" "month d \<le> 12" "1 \<le> day d"
      "day d \<le> days_in_month (year d) (month d)"
    using assms by (simp_all add: valid_date_def)
  have "days_before_year 1 \<le> days_before_year (year d)" by (rule days_before_year_mono [OF v(1)])
  moreover have "days_before_year 1 = 0" by (simp add: days_before_year_def)
  ultimately have lo: "1 \<le> ymd2ord d"
    using days_before_month_nonneg [OF v(3,4), of "year d"] v(5) unfolding ymd2ord_def by linarith
  have "ymd2ord d \<le> days_before_year (year d) + (if is_leap (year d) then 366 else 365)"
    using days_before_month_last [OF v(3,4), of "year d"] v(6) unfolding ymd2ord_def by linarith
  also have "\<dots> = days_before_year (year d + 1)" by (simp only: days_before_year_step)
  also have "\<dots> \<le> days_before_year 10000" using v(2) by (intro days_before_year_mono) simp
  also have "\<dots> = 3652059" by (simp add: days_before_year_def)
  finally show ?thesis using lo by simp
qed

subsection \<open>Epoch seconds of a date\<close>

lemma starttime_of_eq:
  assumes "valid_date d"
  shows "starttime_of d = 86400 * (ymd2ord d - 719163)"
proof -
  define s where "s = 86400 * (ymd2ord d - 719163)"
  have r: "- 62135596800 \<le> s" "s \<le> 253402214400"
    using ymd2ord_range [OF assms] unfolding s_def by simp_all
  have us: "timestamp_us d time_min = s * 1000000"
    by (simp add: timestamp_us_def time_min_def s_def)
  have "int_of_seconds (s * 1000000) = s"
  proof (cases "0 \<le> s")
    case True
    have "int_of_quotient (s * 1000000) 1000000 = s"
      by (rule int_of_quotient_whole) (use r in simp)
    then show ?thesis using True by (simp add: int_of_seconds_def)
  next
    case False
    have "int_of_quotient ((- s) * 1000000) 1000000 = - s"
      by (rule int_of_quotient_whole) (use r in simp)
    then show ?thesis using False by (simp add: int_of_seconds_def)
  qed
  then show ?thesis unfolding starttime_of_def us s_def .
qed

lemma endtime_of_eq:
  assumes "valid_date d"
  shows "endtime_of d =
           (if 719163 \<le> ymd2ord d \<and> ymd2ord d < 918004
            then 86400 * (ymd2ord d - 719163) + 86399
            else 86400 * (ymd2ord d - 719163) + 86400)"
proof -
  define D where "D = ymd2ord d - 719163"
  define x where "x = 86400 * D + 86399"
  have r: "- 719162 \<le> D" "D \<le> 2932896"
    using ymd2ord_range [OF assms] unfolding D_def by simp_all
  have us: "timestamp_us d time_max = x * 1000000 + 999999"
    by (simp add: timestamp_us_def time_max_def x_def D_def)
  consider (before) "D < 0" | (near) "0 \<le> D" "D < 198841" | (far) "198841 \<le> D"
    by linarith
  then have "int_of_seconds (x * 1000000 + 999999) = (if 0 \<le> D \<and> D < 198841 then x else x + 1)"
  proof cases
    case before
    define y where "y = - x - 1"
    have y: "0 \<le> y" "y < 2 ^ 52" using before r unfolding y_def x_def by simp_all
    have e: "- (x * 1000000 + 999999) = y * 1000000 + 1" unfolding y_def by simp
    have neg: "\<not> 0 \<le> x * 1000000 + 999999" using y(1) unfolding y_def by simp
    have "int_of_quotient (y * 1000000 + 1) 1000000 = y"
      by (rule int_of_quotient_just_after [OF y(2)])
    then have "int_of_seconds (x * 1000000 + 999999) = - y"
      unfolding int_of_seconds_def using neg by (simp only: e if_False)
    then show ?thesis using before unfolding y_def by simp
  next
    case near
    have x: "0 \<le> x" "x < 17179869184" using near unfolding x_def by simp_all
    have "int_of_quotient (x * 1000000 + 999999) 1000000 = x"
      by (rule int_of_quotient_just_before) (use x in simp_all)
    then show ?thesis using near x(1) by (simp add: int_of_seconds_def)
  next
    case far
    have x: "17179948799 \<le> x" "x \<le> 253402300799" using far r unfolding x_def by simp_all
    have "int_of_quotient (x * 1000000 + 999999) 1000000 = x + 1"
      by (rule int_of_quotient_rounds_up) (use x in simp_all)
    then show ?thesis using far x(1) by (simp add: int_of_seconds_def)
  qed
  then have "endtime_of d = (if 0 \<le> D \<and> D < 198841 then x else x + 1)"
    unfolding endtime_of_def us .
  then show ?thesis unfolding x_def D_def by simp
qed

lemma ymd2ord_rounding_day: "ymd2ord \<lparr>year = 2514, month = 5, day = 30\<rparr> = 918004"
  by (simp add: ymd2ord_def days_before_year_def days_before_month_def is_leap_def)

lemma calendar_rounding_day: "calendar_day \<lparr>year = 2514, month = 5, day = 30\<rparr>"
  by (simp add: calendar_day_def days_in_month_def)

lemma calendar_epoch: "calendar_day epoch_date"
  by (rule valid_date_calendar_day [OF valid_epoch])

text \<open>
  C4. For every date \<open>d\<close> that a date picker can return: the start time of 1970-01-01
  is 0 and the start time of the day after \<open>d\<close> is 86400 more than that of \<open>d\<close>, so
  the start time is the epoch second of 00:00:00 UTC of the day. For an end date from
  1970-01-01 to 2514-05-29 the end time is the epoch second of 23:59:59 of the day, 86399
  after its start. For an end date before 1970-01-01, and from 2514-05-30 on, it is the
  first second of the next day: a negative value is cut towards zero, and from \<open>2^34\<close>
  seconds on the double nearest to a time of 23:59:59.999999 is the next whole second.
\<close>

theorem epoch_seconds_of_dates:
  assumes "valid_date d"
  shows "starttime_of epoch_date = 0
       \<and> (valid_date (next_day d) \<longrightarrow> starttime_of (next_day d) = starttime_of d + 86400)
       \<and> (\<not> date_less d epoch_date \<and> date_less d \<lparr>year = 2514, month = 5, day = 30\<rparr> \<longrightarrow>
            endtime_of d = starttime_of d + (23 * 3600 + 59 * 60 + 59))
       \<and> (date_less d epoch_date \<or> \<not> date_less d \<lparr>year = 2514, month = 5, day = 30\<rparr> \<longrightarrow>
            endtime_of d = starttime_of d + 86400)"
proof -
  have c: "calendar_day d" by (rule valid_date_calendar_day [OF assms])
  have p1: "starttime_of epoch_date = 0"
    using starttime_of_eq [OF valid_epoch] by (simp add: ymd2ord_epoch)
  have p2: "valid_date (next_day d) \<longrightarrow> starttime_of (next_day d) = starttime_of d + 86400"
  proof
    assume v: "valid_date (next_day d)"
    show "starttime_of (next_day d) = starttime_of d + 86400"
      unfolding starttime_of_eq [OF v] starttime_of_eq [OF assms] ymd2ord_next_day [OF c] by simp
  qed
  have lo: "date_less d epoch_date \<longleftrightarrow> ymd2ord d < 719163"
    using date_less_iff_ord [OF c calendar_epoch] by (simp add: ymd2ord_epoch)
  have hi: "date_less d \<lparr>year = 2514, month = 5, day = 30\<rparr> \<longleftrightarrow> ymd2ord d < 918004"
    using date_less_iff_ord [OF c calendar_rounding_day] by (simp add: ymd2ord_rounding_day)
  have p3: "\<not> date_less d epoch_date \<and> date_less d \<lparr>year = 2514, month = 5, day = 30\<rparr> \<longrightarrow>
            endtime_of d = starttime_of d + (23 * 3600 + 59 * 60 + 59)"
    unfolding lo hi endtime_of_eq [OF assms] starttime_of_eq [OF assms] by simp
  have p4: "date_less d epoch_date \<or> \<not> date_less d \<lparr>year = 2514, month = 5, day = 30\<rparr> \<longrightarrow>
            endtime_of d = starttime_of d + 86400"
    unfolding lo hi endtime_of_eq [OF assms] starttime_of_eq [OF assms] by auto
  show ?thesis using p1 p2 p3 p4 by blast
qed

lemma date_examples:
  "valid_date \<lparr>year = 2024, month = 1, day = 1\<rparr>"
  "valid_date \<lparr>year = 2024, month = 2, day = 28\<rparr>"
  "valid_date \<lparr>year = 2024, month = 2, day = 29\<rparr>"
  "valid_date \<lparr>year = 2023, month = 12, day = 31\<rparr>"
  "valid_date \<lparr>year = 1969, month = 12, day = 31\<rparr>"
  "next_day \<lparr>year = 2024, month = 2, day = 28\<rparr> = \<lparr>year = 2024, month = 2, day = 29\<rparr>"
  "next_day \<lparr>year = 2023, month = 12, day = 31\<rparr> = \<lparr>year = 2024, month = 1, day = 1\<rparr>"
  by (simp_all add: valid_date_def next_day_def days_in_month_def is_leap_def)

lemma starttime_examples:
  "starttime_of \<lparr>year = 2024, month = 1, day = 1\<rparr> = 1704067200"
  "starttime_of \<lparr>year = 2024, month = 2, day = 28\<rparr> = 1709078400"
  "starttime_of \<lparr>year = 1969, month = 12, day = 31\<rparr> = - 86400"
  by code_simp+

theorem epoch_seconds_of_dates_witness:
  "starttime_of \<lparr>year = 2024, month = 1, day = 1\<rparr> = 1704067200
   \<and> endtime_of \<lparr>year = 2024, month = 1, day = 1\<rparr> = 1704153599
   \<and> starttime_of \<lparr>year = 2023, month = 12, day = 31\<rparr> = 1703980800
   \<and> starttime_of \<lparr>year = 2024, month = 2, day = 29\<rparr> = 1709164800
   \<and> endtime_of \<lparr>year = 2024, month = 2, day = 28\<rparr> = 1709164799
   \<and> endtime_of \<lparr>year = 1969, month = 12, day = 31\<rparr> = 0"
  using epoch_seconds_of_dates [of "\<lparr>year = 2024, month = 1, day = 1\<rparr>"]
    epoch_seconds_of_dates [of "\<lparr>year = 2023, month = 12, day = 31\<rparr>"]
    epoch_seconds_of_dates [of "\<lparr>year = 2024, month = 2, day = 28\<rparr>"]
    epoch_seconds_of_dates [of "\<lparr>year = 1969, month = 12, day = 31\<rparr>"]
  by (simp add: date_examples starttime_examples date_less_def epoch_date_def)

theorem endtime_not_last_second_counterexample:
  "valid_date \<lparr>year = 2514, month = 5, day = 30\<rparr>
   \<and> starttime_of \<lparr>year = 2514, month = 5, day = 30\<rparr> = 17179862400
   \<and> whole_seconds (timestamp_us \<lparr>year = 2514, month = 5, day = 30\<rparr> time_max) = 17179948799
   \<and> endtime_of \<lparr>year = 2514, month = 5, day = 30\<rparr> = 17179948800
   \<and> endtime_of \<lparr>year = 2514, month = 5, day = 30\<rparr>
        \<noteq> starttime_of \<lparr>year = 2514, month = 5, day = 30\<rparr> + (23 * 3600 + 59 * 60 + 59)"
  by code_simp

subsection \<open>Granularity options\<close>

text \<open>
  C5. For every pair of selected dates the span \<open>(end_date - start_date).days\<close> is the
  number of calendar days from the start date to the end date: going that many days on
  from the start date gives the end date, and for an end date before the start date the
  span is negative and that many days lead from the end date to the start date. The
  options offered are fixed by this span: below 1 day all five, from 1 to 7 days
  \<open>15m\<close>, \<open>1h\<close> and \<open>daily\<close>, above 7 days \<open>1h\<close> and \<open>daily\<close>.
\<close>

theorem granularity_options_by_span:
  assumes "valid_date start_date" and "valid_date end_date"
  shows "(\<not> date_less end_date start_date \<longrightarrow>
            0 \<le> date_range_days start_date end_date
            \<and> add_days start_date (nat (date_range_days start_date end_date)) = end_date)
       \<and> (date_less end_date start_date \<longrightarrow>
            date_range_days start_date end_date < 0
            \<and> add_days end_date (nat (- date_range_days start_date end_date)) = start_date)
       \<and> (date_range_days start_date end_date < 1 \<longrightarrow>
            granularity_options (date_range_days start_date end_date) = [''1m'', ''5m'', ''15m'', ''1h'', ''daily''])
       \<and> (1 \<le> date_range_days start_date end_date \<and> date_range_days start_date end_date \<le> 7 \<longrightarrow>
            granularity_options (date_range_days start_date end_date) = [''15m'', ''1h'', ''daily''])
       \<and> (7 < date_range_days start_date end_date \<longrightarrow>
            granularity_options (date_range_days start_date end_date) = [''1h'', ''daily''])"
proof -
  define n where "n = date_range_days start_date end_date"
  have cs: "calendar_day start_date" and ce: "calendar_day end_date"
    using assms by (simp_all add: valid_date_calendar_day)
  have n: "n = ymd2ord end_date - ymd2ord start_date" unfolding n_def date_range_days_def ..
  have lt: "date_less end_date start_date \<longleftrightarrow> n < 0"
    using date_less_iff_ord [OF ce cs] n by simp
  have fwd: "add_days start_date (nat n) = end_date" if "0 \<le> n"
  proof (rule ymd2ord_inj [OF add_days_calendar [OF cs] ce])
    show "ymd2ord (add_days start_date (nat n)) = ymd2ord end_date"
      unfolding ymd2ord_add_days [OF cs] using that n by simp
  qed
  have bwd: "add_days end_date (nat (- n)) = start_date" if "n < 0"
  proof (rule ymd2ord_inj [OF add_days_calendar [OF ce] cs])
    show "ymd2ord (add_days end_date (nat (- n))) = ymd2ord start_date"
      unfolding ymd2ord_add_days [OF ce] using that n by simp
  qed
  have p1: "\<not> date_less end_date start_date \<longrightarrow> 0 \<le> n \<and> add_days start_date (nat n) = end_date"
    using lt fwd by simp
  have p2: "date_less end_date start_date \<longrightarrow> n < 0 \<and> add_days end_date (nat (- n)) = start_date"
    using lt bwd by simp
  have p3: "(n < 1 \<longrightarrow> granularity_options n = [''1m'', ''5m'', ''15m'', ''1h'', ''daily''])
      \<and> (1 \<le> n \<and> n \<le> 7 \<longrightarrow> granularity_options n = [''15m'', ''1h'', ''daily''])
      \<and> (7 < n \<longrightarrow> granularity_options n = [''1h'', ''daily''])"
    by (simp add: granularity_options_def)
  show ?thesis unfolding n_def [symmetric] using p1 p2 p3 by blast
qed

lemma span_dates:
  "valid_date \<lparr>year = 2024, month = 2, day = 27\<rparr>"
  "valid_date \<lparr>year = 2024, month = 3, day = 5\<rparr>"
  "valid_date \<lparr>year = 2023, month = 12, day = 28\<rparr>"
  "valid_date \<lparr>year = 2024, month = 1, day = 5\<rparr>"
  "valid_date \<lparr>year = 2024, month = 3, day = 1\<rparr>"
  by (simp_all add: valid_date_def days_in_month_def is_leap_def)

lemma span_examples:
  "date_range_days \<lparr>year = 2024, month = 1, day = 1\<rparr> \<lparr>year = 2024, month = 1, day = 1\<rparr> = 0"
  "date_range_days \<lparr>year = 2024, month = 2, day = 27\<rparr> \<lparr>year = 2024, month = 3, day = 5\<rparr> = 7"
  "date_range_days \<lparr>year = 2023, month = 12, day = 28\<rparr> \<lparr>year = 2024, month = 1, day = 5\<rparr> = 8"
  "date_range_days \<lparr>year = 2024, month = 3, day = 1\<rparr> \<lparr>year = 2024, month = 2, day = 28\<rparr> = - 2"
  by (simp_all add: date_range_days_def ymd2ord_def days_before_year_def days_before_month_def is_leap_def)

theorem granularity_options_by_span_witness:
  "granularity_options (date_range_days \<lparr>year = 2024, month = 1, day = 1\<rparr> \<lparr>year = 2024, month = 1, day = 1\<rparr>)
     = [''1m'', ''5m'', ''15m'', ''1h'', ''daily'']
   \<and> add_days \<lparr>year = 2024, month = 2, day = 27\<rparr> 7 = \<lparr>year = 2024, month = 3, day = 5\<rparr>
   \<and> granularity_options (date_range_days \<lparr>year = 2024, month = 2, day = 27\<rparr> \<lparr>year = 2024, month = 3, day = 5\<rparr>)
     = [''15m'', ''1h'', ''daily'']
   \<and> add_days \<lparr>year = 2023, month = 12, day = 28\<rparr> 8 = \<lparr>year = 2024, month = 1, day = 5\<rparr>
   \<and> granularity_options (date_range_days \<lparr>year = 2023, month = 12, day = 28\<rparr> \<lparr>year = 2024, month = 1, day = 5\<rparr>)
     = [''1h'', ''daily'']
   \<and> add_days \<lparr>year = 2024, month = 2, day = 28\<rparr> 2 = \<lparr>year = 2024, month = 3, day = 1\<rparr>
   \<and> granularity_options (date_range_days \<lparr>year = 2024, month = 3, day = 1\<rparr> \<lparr>year = 2024, month = 2, day = 28\<rparr>)
     = [''1m'', ''5m'', ''15m'', ''1h'', ''daily'']"
  using granularity_options_by_span [of "\<lparr>year = 2024, month = 1, day = 1\<rparr>" "\<lparr>year = 2024, month = 1, day = 1\<rparr>"]
    granularity_options_by_span [of "\<lparr>year = 2024, month = 2, day = 27\<rparr>" "\<lparr>year = 2024, month = 3, day = 5\<rparr>"]
    granularity_options_by_span [of "\<lparr>year = 2023, month = 12, day = 28\<rparr>" "\<lparr>year = 2024, month = 1, day = 5\<rparr>"]
    granularity_options_by_span [of "\<lparr>year = 2024, month = 3, day = 1\<rparr>" "\<lparr>year = 2024, month = 2, day = 28\<rparr>"]
  by (simp add: date_examples span_dates span_examples date_less_def)

subsection \<open>Validation of required parameters\<close>

lemma required_params_loop_no_device:
  assumes "serial \<noteq> []"
  shows "required_params_loop ps serial acc = acc"
  using assms by (induction ps serial acc rule: required_params_loop.induct) simp_all

lemma form_granularity_value:
  assumes "(name, ep) \<in> set endpoints" and "''granularity'' \<in> set (params ep)"
  shows "\<exists>g. query (input_parameters name ep w) ''granularity'' = Some (PStr g)
             \<and> g \<in> set (granularity_options (date_range_days (start_picked w) (end_picked w)))
             \<and> g \<noteq> []"
proof -
  obtain g where g: "selectbox (granularity_options (date_range_days (start_picked w) (end_picked w)))
                        (granularity_index w) = PStr g"
      "g \<in> set (granularity_options (date_range_days (start_picked w) (end_picked w)))"
    using selectbox_member [OF granularity_options_nonempty] by blast
  have "g \<noteq> []" by (rule granularity_options_strings [OF g(2)])
  then show ?thesis using form_granularity [OF assms, of w] g by simp
qed

lemma required_in_params:
  assumes "(name, ep) \<in> set endpoints"
  shows "set (required_params ep) \<subseteq> {''device_serialid'', ''granularity''}
       \<and> set (required_params ep) \<subseteq> set (params ep)"
  by (rule endpoints_cases [OF assms]) (simp_all add: ep_defs)

text \<open>
  C3. For every endpoint of the registry and every state of the widgets, validation
  passes exactly when every required parameter has a non-empty value in the form state
  built from the widgets, it shows as many errors as required parameters are missing,
  and a missing one stops the run before the API key is read or a request is made. The
  loop itself looks at the device id only; \<open>granularity\<close>, required by two endpoints,
  is never missing, since the form puts the selected option, a non-empty string, in the
  query.
\<close>

theorem validation_matches_form_state:
  assumes "(name, ep) \<in> set endpoints"
  shows "fst (validate ep (input_parameters name ep w))
           = (\<forall>p \<in> set (required_params ep). value_present (input_parameters name ep w) p)
       \<and> length (snd (validate ep (input_parameters name ep w)))
           = length (filter (\<lambda>p. \<not> value_present (input_parameters name ep w) p) (required_params ep))
       \<and> (\<forall>m \<in> set (snd (validate ep (input_parameters name ep w))).
             m = Error ''Device Serial ID is a required parameter for this endpoint.'')
       \<and> ((\<exists>p \<in> set (required_params ep). \<not> value_present (input_parameters name ep w) p) \<longrightarrow>
             fetch_data sec ep (input_parameters name ep w) r
               = ValidationFailed (snd (validate ep (input_parameters name ep w))))
       \<and> (''granularity'' \<in> set (required_params ep) \<longrightarrow>
             value_present (input_parameters name ep w) ''granularity'')"
proof -
  let ?f = "input_parameters name ep w"
  have dev: "device_serialid ?f = device_text w" by (rule form_device [OF assms])
  have req: "set (required_params ep) \<subseteq> {''device_serialid'', ''granularity''}"
    and sub: "set (required_params ep) \<subseteq> set (params ep)"
    using required_in_params [OF assms] by simp_all
  have gran: "value_present ?f ''granularity''" if g: "''granularity'' \<in> set (required_params ep)"
  proof -
    have gp: "''granularity'' \<in> set (params ep)" using g sub by blast
    show ?thesis using form_granularity_value [OF assms gp, of w]
      by (auto simp add: value_present_def)
  qed
  have vp_dev: "value_present ?f ''device_serialid'' = (device_text w \<noteq> [])"
    by (simp add: value_present_def dev)
  have pres: "value_present ?f p = (p = ''device_serialid'' \<longrightarrow> device_text w \<noteq> [])"
    if "p \<in> set (required_params ep)" for p
    using that req gran vp_dev by auto
  have last: "''granularity'' \<in> set (required_params ep) \<longrightarrow> value_present ?f ''granularity''"
    using gran by simp
  have main: "fst (validate ep ?f) = (\<forall>p \<in> set (required_params ep). value_present ?f p)
       \<and> length (snd (validate ep ?f))
           = length (filter (\<lambda>p. \<not> value_present ?f p) (required_params ep))
       \<and> (\<forall>m \<in> set (snd (validate ep ?f)).
             m = Error ''Device Serial ID is a required parameter for this endpoint.'')
       \<and> ((\<exists>p \<in> set (required_params ep). \<not> value_present ?f p) \<longrightarrow>
             fetch_data sec ep ?f r = ValidationFailed (snd (validate ep ?f)))"
  proof (cases "device_text w = []")
    case False
    then have v: "validate ep ?f = (True, [])"
      by (simp add: validate_def dev required_params_loop_no_device)
    have allp: "\<forall>p \<in> set (required_params ep). value_present ?f p"
      using pres False by simp
    then have "filter (\<lambda>p. \<not> value_present ?f p) (required_params ep) = []"
      by (simp add: filter_empty_conv)
    then show ?thesis using v allp by simp
  next
    case True
    show ?thesis
      apply (insert True pres dev)
      apply (rule endpoints_cases [OF assms])
      apply (simp_all add: validate_def fetch_data_def ep_defs)
      done
  qed
  show ?thesis using main last by blast
qed

lemma registry_examples:
  "(''Devices'', ep_devices) \<in> set endpoints"
  "(''Events Interval'', ep_events_interval) \<in> set endpoints"
  "(''Power Quality Live'', ep_power_quality_live) \<in> set endpoints"
  "(''Power Quality Interval'', ep_power_quality_interval) \<in> set endpoints"
  "(''Power Quality Aggregated'', ep_power_quality_aggregated) \<in> set endpoints"
  by (simp_all add: endpoints_def)

lemma validate_examples:
  "validate ep_power_quality_interval
     (input_parameters ''Power Quality Interval'' ep_power_quality_interval
        \<lparr>device_text = [], start_picked = \<lparr>year = 2024, month = 1, day = 1\<rparr>,
         end_picked = \<lparr>year = 2024, month = 1, day = 1\<rparr>, granularity_index = 0\<rparr>)
     = (False, [Error ''Device Serial ID is a required parameter for this endpoint.''])"
  "validate ep_power_quality_interval
     (input_parameters ''Power Quality Interval'' ep_power_quality_interval
        \<lparr>device_text = ''E1'', start_picked = \<lparr>year = 2024, month = 1, day = 1\<rparr>,
         end_picked = \<lparr>year = 2024, month = 1, day = 1\<rparr>, granularity_index = 0\<rparr>)
     = (True, [])"
  by (simp_all add: validate_def form_defs ep_defs)

lemma required_params_examples:
  "required_params ep_devices = []"
  "required_params ep_events_interval = [''device_serialid'']"
  "required_params ep_power_quality_interval = [''device_serialid'', ''granularity'']"
  by (simp_all add: ep_defs)

lemma value_present_examples:
  "\<not> value_present (input_parameters ''Power Quality Interval'' ep_power_quality_interval
        \<lparr>device_text = [], start_picked = \<lparr>year = 2024, month = 1, day = 1\<rparr>,
         end_picked = \<lparr>year = 2024, month = 1, day = 1\<rparr>, granularity_index = 0\<rparr>) ''device_serialid''"
  "value_present (input_parameters ''Power Quality Interval'' ep_power_quality_interval
        \<lparr>device_text = ''E1'', start_picked = \<lparr>year = 2024, month = 1, day = 1\<rparr>,
         end_picked = \<lparr>year = 2024, month = 1, day = 1\<rparr>, granularity_index = 0\<rparr>) ''device_serialid''"
  by (simp_all add: value_present_def form_defs ep_defs)

theorem validation_matches_form_state_witness:
  "\<not> fst (validate ep_power_quality_interval
        (input_parameters ''Power Quality Interval'' ep_power_quality_interval
           \<lparr>device_text = [], start_picked = \<lparr>year = 2024, month = 1, day = 1\<rparr>,
            end_picked = \<lparr>year = 2024, month = 1, day = 1\<rparr>, granularity_index = 0\<rparr>))
   \<and> \<not> value_present (input_parameters ''Power Quality Interval'' ep_power_quality_interval
           \<lparr>device_text = [], start_picked = \<lparr>year = 2024, month = 1, day = 1\<rparr>,
            end_picked = \<lparr>year = 2024, month = 1, day = 1\<rparr>, granularity_index = 0\<rparr>) ''device_serialid''
   \<and> value_present (input_parameters ''Power Quality Interval'' ep_power_quality_interval
           \<lparr>device_text = [], start_picked = \<lparr>year = 2024, month = 1, day = 1\<rparr>,
            end_picked = \<lparr>year = 2024, month = 1, day = 1\<rparr>, granularity_index = 0\<rparr>) ''granularity''
   \<and> fetch_data \<lparr>credentials = None, edgeapi = Some \<lparr>api_key = Some ''key''\<rparr>\<rparr> ep_power_quality_interval
        (input_parameters ''Power Quality Interval'' ep_power_quality_interval
           \<lparr>device_text = [], start_picked = \<lparr>year = 2024, month = 1, day = 1\<rparr>,
            end_picked = \<lparr>year = 2024, month = 1, day = 1\<rparr>, granularity_index = 0\<rparr>)
        (Reply 200 (Some (JArr [JInt 1])))
      = ValidationFailed [Error ''Device Serial ID is a required parameter for this endpoint.'']
   \<and> value_present (input_parameters ''Power Quality Interval'' ep_power_quality_interval
           \<lparr>device_text = ''E1'', start_picked = \<lparr>year = 2024, month = 1, day = 1\<rparr>,
            end_picked = \<lparr>year = 2024, month = 1, day = 1\<rparr>, granularity_index = 0\<rparr>) ''granularity''
   \<and> fst (validate ep_power_quality_interval
        (input_parameters ''Power Quality Interval'' ep_power_quality_interval
           \<lparr>device_text = ''E1'', start_picked = \<lparr>year = 2024, month = 1, day = 1\<rparr>,
            end_picked = \<lparr>year = 2024, month = 1, day = 1\<rparr>, granularity_index = 0\<rparr>))"
  using validation_matches_form_state [OF registry_examples(4), of
      "\<lparr>device_text = [], start_picked = \<lparr>year = 2024, month = 1, day = 1\<rparr>,
        end_picked = \<lparr>year = 2024, month = 1, day = 1\<rparr>, granularity_index = 0\<rparr>"
      "\<lparr>credentials = None, edgeapi = Some \<lparr>api_key = Some ''key''\<rparr>\<rparr>" "Reply 200 (Some (JArr [JInt 1]))"]
    validation_matches_form_state [OF registry_examples(4), of
      "\<lparr>device_text = ''E1'', start_picked = \<lparr>year = 2024, month = 1, day = 1\<rparr>,
        end_picked = \<lparr>year = 2024, month = 1, day = 1\<rparr>, granularity_index = 0\<rparr>"
      "\<lparr>credentials = None, edgeapi = Some \<lparr>api_key = Some ''key''\<rparr>\<rparr>" "Reply 200 (Some (JArr [JInt 1]))"]
  unfolding validate_examples
  by (simp add: required_params_examples value_present_examples)

subsection \<open>URL and query parameters\<close>

lemma form_url:
  assumes "(name, ep) \<in> set endpoints"
  shows "full_url (input_parameters name ep w) =
           (if name = ''Devices'' then base_url @ path ep else base_url @ path ep @ device_text w)"
  by (rule endpoints_cases [OF assms]) (simp_all add: form_defs ep_defs Let_def)

lemma form_query_device:
  assumes "(name, ep) \<in> set endpoints"
  shows "query (input_parameters name ep w) ''device_serialid'' =
           (if name = ''Devices'' \<and> device_text w \<noteq> [] then Some (PStr (device_text w)) else None)"
  by (rule endpoints_cases [OF assms]) (simp_all add: form_defs ep_defs Let_def)

lemma form_query_dom:
  assumes "(name, ep) \<in> set endpoints"
  shows "dom (query (input_parameters name ep w)) =
           (if name = ''Devices'' \<and> device_text w \<noteq> [] then {''device_serialid''} else {})
           \<union> (if ''dates'' \<in> set (params ep) then {''starttime'', ''endtime''} else {})
           \<union> (if ''granularity'' \<in> set (params ep) then {''granularity''} else {})"
  by (rule endpoints_cases [OF assms]) (auto simp add: form_defs ep_defs Let_def)

lemma devices_path:
  assumes "(''Devices'', ep) \<in> set endpoints"
  shows "path ep = ''/devices'' \<and> params ep = [''device_serialid'']"
  by (rule endpoints_cases [OF assms]) (simp_all add: ep_defs)

text \<open>
  C6. For every endpoint of the registry other than \<open>Devices\<close> the URL is the base,
  the path of the endpoint and the device id, one after the other with nothing between
  them, and the device id is not a query parameter. For \<open>Devices\<close> the URL is the base
  followed by \<open>/devices\<close> whatever the device id is, and the device id is the query
  parameter \<open>device_serialid\<close> when it is not empty.
\<close>

theorem url_construction:
  assumes "(name, ep) \<in> set endpoints"
  shows "(name \<noteq> ''Devices'' \<longrightarrow>
            full_url (input_parameters name ep w) = base_url @ path ep @ device_text w
            \<and> query (input_parameters name ep w) ''device_serialid'' = None)
       \<and> (name = ''Devices'' \<longrightarrow>
            full_url (input_parameters name ep w) = base_url @ ''/devices''
            \<and> query (input_parameters name ep w) ''device_serialid''
                = (if device_text w \<noteq> [] then Some (PStr (device_text w)) else None))"
proof -
  have "path ep = ''/devices''" if "name = ''Devices''"
    using devices_path [of ep] assms that by simp
  then show ?thesis
    using form_url [OF assms, of w] form_query_device [OF assms, of w] by auto
qed

lemma path_examples:
  "path ep_devices = ''/devices''"
  "path ep_events_interval = ''/events/interval/''"
  "path ep_power_quality_live = ''/powerquality/live/''"
  "path ep_power_quality_interval = ''/powerquality/interval/''"
  "path ep_power_quality_aggregated = ''/powerquality/aggregated/''"
  by (simp_all add: ep_defs)

theorem url_construction_witness:
  "full_url (input_parameters ''Events Interval'' ep_events_interval
      \<lparr>device_text = ''E123'', start_picked = \<lparr>year = 2024, month = 1, day = 1\<rparr>,
       end_picked = \<lparr>year = 2024, month = 1, day = 2\<rparr>, granularity_index = 0\<rparr>)
     = ''https://v3.edgezeroapi.com/pienergy/events/interval/E123''
   \<and> full_url (input_parameters ''Power Quality Aggregated'' ep_power_quality_aggregated
      \<lparr>device_text = ''E123'', start_picked = \<lparr>year = 2024, month = 1, day = 1\<rparr>,
       end_picked = \<lparr>year = 2024, month = 1, day = 2\<rparr>, granularity_index = 0\<rparr>)
     = ''https://v3.edgezeroapi.com/pienergy/powerquality/aggregated/E123''
   \<and> full_url (input_parameters ''Devices'' ep_devices
      \<lparr>device_text = ''E123'', start_picked = \<lparr>year = 2024, month = 1, day = 1\<rparr>,
       end_picked = \<lparr>year = 2024, month = 1, day = 2\<rparr>, granularity_index = 0\<rparr>)
     = ''https://v3.edgezeroapi.com/pienergy/devices''
   \<and> query (input_parameters ''Devices'' ep_devices
      \<lparr>device_text = ''E123'', start_picked = \<lparr>year = 2024, month = 1, day = 1\<rparr>,
       end_picked = \<lparr>year = 2024, month = 1, day = 2\<rparr>, granularity_index = 0\<rparr>) ''device_serialid''
     = Some (PStr ''E123'')"
  using url_construction [OF registry_examples(2), of
      "\<lparr>device_text = ''E123'', start_picked = \<lparr>year = 2024, month = 1, day = 1\<rparr>,
        end_picked = \<lparr>year = 2024, month = 1, day = 2\<rparr>, granularity_index = 0\<rparr>"]
    url_construction [OF registry_examples(5), of
      "\<lparr>device_text = ''E123'', start_picked = \<lparr>year = 2024, month = 1, day = 1\<rparr>,
        end_picked = \<lparr>year = 2024, month = 1, day = 2\<rparr>, granularity_index = 0\<rparr>"]
    url_construction [OF registry_examples(1), of
      "\<lparr>device_text = ''E123'', start_picked = \<lparr>year = 2024, month = 1, day = 1\<rparr>,
        end_picked = \<lparr>year = 2024, month = 1, day = 2\<rparr>, granularity_index = 0\<rparr>"]
  by (simp add: path_examples base_url_def)

text \<open>
  C8. For the \<open>Devices\<close> endpoint with an empty device id field the query dictionary
  has no key \<open>device_serialid\<close> (it has no key at all) and the URL is the base followed
  by \<open>/devices\<close>.
\<close>

theorem devices_empty_device_id_omitted:
  assumes "(''Devices'', ep) \<in> set endpoints" and "device_text w = []"
  shows "''device_serialid'' \<notin> dom (query (input_parameters ''Devices'' ep w))
       \<and> query (input_parameters ''Devices'' ep w) = Map.empty
       \<and> full_url (input_parameters ''Devices'' ep w) = base_url @ ''/devices''
       \<and> full_url (input_parameters ''Devices'' ep w) = ''https://v3.edgezeroapi.com/pienergy/devices''"
proof -
  have p: "path ep = ''/devices''" "params ep = [''device_serialid'']"
    using devices_path [OF assms(1)] by simp_all
  have "dom (query (input_parameters ''Devices'' ep w)) = {}"
    using form_query_dom [OF assms(1), of w] assms(2) p(2) by simp
  then have q: "query (input_parameters ''Devices'' ep w) = Map.empty" by simp
  have u: "full_url (input_parameters ''Devices'' ep w) = base_url @ ''/devices''"
    using form_url [OF assms(1), of w] p(1) by simp
  show ?thesis using q u by (simp add: base_url_def)
qed

theorem devices_empty_device_id_omitted_witness:
  "query (input_parameters ''Devices'' ep_devices
      \<lparr>device_text = [], start_picked = \<lparr>year = 2024, month = 1, day = 1\<rparr>,
       end_picked = \<lparr>year = 2024, month = 1, day = 2\<rparr>, granularity_index = 0\<rparr>) ''device_serialid'' = None
   \<and> full_url (input_parameters ''Devices'' ep_devices
      \<lparr>device_text = [], start_picked = \<lparr>year = 2024, month = 1, day = 1\<rparr>,
       end_picked = \<lparr>year = 2024, month = 1, day = 2\<rparr>, granularity_index = 0\<rparr>)
     = ''https://v3.edgezeroapi.com/pienergy/devices''"
  using devices_empty_device_id_omitted [OF registry_examples(1), of
      "\<lparr>device_text = [], start_picked = \<lparr>year = 2024, month = 1, day = 1\<rparr>,
        end_picked = \<lparr>year = 2024, month = 1, day = 2\<rparr>, granularity_index = 0\<rparr>"]
  by (simp add: base_url_def)

subsection \<open>Inverted ranges and the granularity entry\<close>

text \<open>
  C9. For an endpoint with a granularity choice and an end date strictly before the
  start date, the span is negative, all five options are offered, and the query holds
  the start time of the start date and the end time of the end date as picked: the end
  time is not after the start time, and nothing swaps or rejects the two.
\<close>

theorem inverted_range_full_options:
  assumes "(name, ep) \<in> set endpoints" and "''granularity'' \<in> set (params ep)"
    and "valid_date (start_picked w)" and "valid_date (end_picked w)"
    and "date_less (end_picked w) (start_picked w)"
  shows "date_range_days (start_picked w) (end_picked w) < 0
       \<and> granularity_options (date_range_days (start_picked w) (end_picked w))
            = [''1m'', ''5m'', ''15m'', ''1h'', ''daily'']
       \<and> query (input_parameters name ep w) ''granularity''
            = Some (selectbox [''1m'', ''5m'', ''15m'', ''1h'', ''daily''] (granularity_index w))
       \<and> query (input_parameters name ep w) ''starttime'' = Some (PInt (starttime_of (start_picked w)))
       \<and> query (input_parameters name ep w) ''endtime'' = Some (PInt (endtime_of (end_picked w)))
       \<and> endtime_of (end_picked w) \<le> starttime_of (start_picked w)"
proof -
  have cs: "calendar_day (start_picked w)" and ce: "calendar_day (end_picked w)"
    using assms(3,4) by (simp_all add: valid_date_calendar_day)
  have lt: "ymd2ord (end_picked w) < ymd2ord (start_picked w)"
    by (rule ymd2ord_strict_mono [OF ce cs assms(5)])
  then have n: "date_range_days (start_picked w) (end_picked w) < 0"
    by (simp add: date_range_days_def)
  then have opts: "granularity_options (date_range_days (start_picked w) (end_picked w))
            = [''1m'', ''5m'', ''15m'', ''1h'', ''daily'']"
    by (simp add: granularity_options_def)
  have g: "''dates'' \<in> set (params ep)"
    "query (input_parameters name ep w) ''granularity''
       = Some (selectbox [''1m'', ''5m'', ''15m'', ''1h'', ''daily''] (granularity_index w))"
    using form_granularity [OF assms(1,2), of w] unfolding opts by simp_all
  have d: "query (input_parameters name ep w) ''starttime'' = Some (PInt (starttime_of (start_picked w)))"
    "query (input_parameters name ep w) ''endtime'' = Some (PInt (endtime_of (end_picked w)))"
    using form_dates [OF assms(1) g(1), of w] by simp_all
  have "endtime_of (end_picked w) \<le> 86400 * (ymd2ord (end_picked w) - 719163) + 86400"
    unfolding endtime_of_eq [OF assms(4)] by simp
  also have "\<dots> \<le> 86400 * (ymd2ord (start_picked w) - 719163)" using lt by simp
  also have "\<dots> = starttime_of (start_picked w)" by (simp only: starttime_of_eq [OF assms(3)])
  finally have le: "endtime_of (end_picked w) \<le> starttime_of (start_picked w)" .
  show ?thesis using n opts g(2) d le by simp
qed

lemma params_examples:
  "params ep_devices = [''device_serialid'']"
  "params ep_events_interval = [''device_serialid'', ''dates'']"
  "params ep_power_quality_live = [''device_serialid'']"
  "params ep_power_quality_interval = [''device_serialid'', ''dates'', ''granularity'']"
  "params ep_power_quality_aggregated = [''device_serialid'', ''dates'', ''granularity'']"
  by (simp_all add: ep_defs)

lemma epoch_second_examples:
  "starttime_of \<lparr>year = 2024, month = 3, day = 1\<rparr> = 1709251200"
  "endtime_of \<lparr>year = 2024, month = 2, day = 28\<rparr> = 1709164799"
  by code_simp+

theorem inverted_range_full_options_witness:
  "date_range_days \<lparr>year = 2024, month = 3, day = 1\<rparr> \<lparr>year = 2024, month = 2, day = 28\<rparr> = - 2
   \<and> query (input_parameters ''Power Quality Interval'' ep_power_quality_interval
        \<lparr>device_text = ''E1'', start_picked = \<lparr>year = 2024, month = 3, day = 1\<rparr>,
         end_picked = \<lparr>year = 2024, month = 2, day = 28\<rparr>, granularity_index = 1\<rparr>) ''granularity''
       = Some (PStr ''5m'')
   \<and> query (input_parameters ''Power Quality Interval'' ep_power_quality_interval
        \<lparr>device_text = ''E1'', start_picked = \<lparr>year = 2024, month = 3, day = 1\<rparr>,
         end_picked = \<lparr>year = 2024, month = 2, day = 28\<rparr>, granularity_index = 1\<rparr>) ''starttime''
       = Some (PInt 1709251200)
   \<and> query (input_parameters ''Power Quality Interval'' ep_power_quality_interval
        \<lparr>device_text = ''E1'', start_picked = \<lparr>year = 2024, month = 3, day = 1\<rparr>,
         end_picked = \<lparr>year = 2024, month = 2, day = 28\<rparr>, granularity_index = 1\<rparr>) ''endtime''
       = Some (PInt 1709164799)"
  using inverted_range_full_options [OF registry_examples(4), of
      "\<lparr>device_text = ''E1'', start_picked = \<lparr>year = 2024, month = 3, day = 1\<rparr>,
        end_picked = \<lparr>year = 2024, month = 2, day = 28\<rparr>, granularity_index = 1\<rparr>"]
  by (simp add: params_examples span_dates date_examples span_examples epoch_second_examples
        date_less_def selectbox_def)

text \<open>
  C10. Every endpoint of the registry that accepts \<open>granularity\<close> accepts \<open>dates\<close> too.
  So for such an endpoint both dates are bound when the granularity box is reached, and
  the query always has a \<open>granularity\<close> entry: one of the options offered for the
  span, a non-empty string, and the first option when the user has chosen nothing.
\<close>

theorem granularity_always_in_query:
  assumes "(name, ep) \<in> set endpoints" and "''granularity'' \<in> set (params ep)"
  shows "''dates'' \<in> set (params ep)
       \<and> date_vars (input_parameters name ep w) = Some (start_picked w, end_picked w)
       \<and> ''granularity'' \<in> dom (query (input_parameters name ep w))
       \<and> (\<exists>g. query (input_parameters name ep w) ''granularity'' = Some (PStr g)
               \<and> g \<in> set (granularity_options (date_range_days (start_picked w) (end_picked w)))
               \<and> g \<noteq> [])
       \<and> (granularity_index w = 0 \<longrightarrow>
             query (input_parameters name ep w) ''granularity''
               = Some (PStr (hd (granularity_options (date_range_days (start_picked w) (end_picked w))))))"
proof -
  have g: "''dates'' \<in> set (params ep)"
    "query (input_parameters name ep w) ''granularity''
       = Some (selectbox (granularity_options (date_range_days (start_picked w) (end_picked w)))
                         (granularity_index w))"
    using form_granularity [OF assms, of w] by simp_all
  have d: "date_vars (input_parameters name ep w) = Some (start_picked w, end_picked w)"
    using form_dates [OF assms(1) g(1), of w] by simp
  have e: "\<exists>g. query (input_parameters name ep w) ''granularity'' = Some (PStr g)
               \<and> g \<in> set (granularity_options (date_range_days (start_picked w) (end_picked w)))
               \<and> g \<noteq> []"
    by (rule form_granularity_value [OF assms])
  then have m: "''granularity'' \<in> dom (query (input_parameters name ep w))" by auto
  have h: "selectbox options 0 = PStr (hd options)" if "options \<noteq> []" for options
    using that by (cases options) (simp_all add: selectbox_def)
  have f: "granularity_index w = 0 \<longrightarrow>
             query (input_parameters name ep w) ''granularity''
               = Some (PStr (hd (granularity_options (date_range_days (start_picked w) (end_picked w)))))"
    using g(2) h [OF granularity_options_nonempty] by simp
  show ?thesis using g(1) d m e f by blast
qed

lemma span_example_four:
  "date_range_days \<lparr>year = 2024, month = 1, day = 1\<rparr> \<lparr>year = 2024, month = 1, day = 5\<rparr> = 4"
  by (simp add: date_range_days_def ymd2ord_def)

theorem granularity_always_in_query_witness:
  "''dates'' \<in> set (params ep_power_quality_aggregated)
   \<and> date_vars (input_parameters ''Power Quality Aggregated'' ep_power_quality_aggregated
        \<lparr>device_text = ''E1'', start_picked = \<lparr>year = 2024, month = 1, day = 1\<rparr>,
         end_picked = \<lparr>year = 2024, month = 1, day = 5\<rparr>, granularity_index = 0\<rparr>)
       = Some (\<lparr>year = 2024, month = 1, day = 1\<rparr>, \<lparr>year = 2024, month = 1, day = 5\<rparr>)
   \<and> query (input_parameters ''Power Quality Aggregated'' ep_power_quality_aggregated
        \<lparr>device_text = ''E1'', start_picked = \<lparr>year = 2024, month = 1, day = 1\<rparr>,
         end_picked = \<lparr>year = 2024, month = 1, day = 5\<rparr>, granularity_index = 0\<rparr>) ''granularity''
       = Some (PStr ''15m'')"
  using granularity_always_in_query [OF registry_examples(5), of
      "\<lparr>device_text = ''E1'', start_picked = \<lparr>year = 2024, month = 1, day = 1\<rparr>,
        end_picked = \<lparr>year = 2024, month = 1, day = 5\<rparr>, granularity_index = 0\<rparr>"]
  by (simp add: params_examples span_example_four granularity_options_def)

subsection \<open>Application errors and empty payloads\<close>






end
